theory Spec2Isabelle
  imports Complex_Main
begin

text \<open>
  A model of the grid topology builder and of the power-flow dataset generator: the ring
  construction of \<open>add_ring_bus_from_to\<close> and \<open>create_grid_topo\<close>, the residual of
  \<open>compute_residual\<close>, and the sampling loop of \<open>PowerFlowDataset\<close>, with the external
  solver and the random draws as parameters. Definitions come first, properties after.
\<close>

section \<open>Python values and exceptions\<close>

text \<open>
  The exceptions that the modelled code can raise. \<open>LoadflowNotConverged\<close> is the
  solver's signal of non-convergence; the others are Python's and numpy's own.
\<close>

datatype py_exn = IndexError | KeyError | ValueError | LoadflowNotConverged

text \<open>\<^verbatim>\<open>range(a, b)\<close> over Python integers: empty when \<open>b \<le> a\<close>.\<close>

definition py_range :: "int \<Rightarrow> int \<Rightarrow> int list" where
  "py_range a b = [a..b - 1]"

text \<open>
  \<^verbatim>\<open>xs[i]\<close>: a negative index counts from the end, and an index outside the list
  raises \<open>IndexError\<close>.
\<close>

definition py_getitem :: "'a list \<Rightarrow> int \<Rightarrow> py_exn + 'a" where
  "py_getitem xs i =
     (if 0 \<le> i \<and> i < int (length xs) then Inr (xs ! nat i)
      else if i < 0 \<and> - int (length xs) \<le> i then Inr (xs ! nat (int (length xs) + i))
      else Inl IndexError)"

text \<open>\<^verbatim>\<open>[x] * n\<close>: the empty list when \<open>n \<le> 0\<close>.\<close>

definition py_replicate :: "int \<Rightarrow> 'a \<Rightarrow> 'a list" where
  "py_replicate n x = replicate (nat n) x"

section \<open>Ring topology (complete\_grids/high\_generation\_injection\_meshed\_fictional\_grid.py)\<close>

text \<open>
  \<open>grid_data\<close> is the dictionary built by \<open>create_grid_topo\<close>; its five keys are
  fixed, so it is a record.
\<close>

record grid_data =
  id_end :: int
  mv_bus :: int
  line_from :: "int list"
  line_to :: "int list"
  buses :: "int list"

text \<open>
  \<open>add_ring_bus_from_to\<close>, statement by statement. The only accesses that can raise are
  \<^verbatim>\<open>buses[-1]\<close> and \<^verbatim>\<open>buses[0]\<close>; the slices \<^verbatim>\<open>buses[:-1]\<close> and \<^verbatim>\<open>buses[1:]\<close>
  never raise. When \<^verbatim>\<open>buses[-1]\<close> on line 12 raises, the local list is empty, so the
  preceding \<^verbatim>\<open>grid_data["buses"] += buses\<close> has changed nothing: the exception
  leaves the dictionary as it was.
\<close>

definition add_ring_bus_from_to :: "grid_data \<Rightarrow> int \<Rightarrow> bool \<Rightarrow> py_exn + grid_data" where
  "add_ring_bus_from_to grid_data n_ring_num is_mesh =
     (let start = id_end grid_data;
          bs = py_range start (start + n_ring_num);
          g1 = grid_data\<lparr>buses := buses grid_data @ bs\<rparr>
      in case py_getitem bs (- 1) of
           Inl e \<Rightarrow> Inl e
         | Inr b_last \<Rightarrow>
             let g2 = g1\<lparr>id_end := b_last + 1\<rparr>
             in case py_getitem bs 0 of
                  Inl e \<Rightarrow> Inl e
                | Inr b_first \<Rightarrow>
                    let g3 = g2\<lparr>line_from := line_from g2 @ [b_first]\<rparr>;
                        g4 = g3\<lparr>line_to := line_to g3 @ [mv_bus g3]\<rparr>;
                        g5 = g4\<lparr>line_from := line_from g4 @ butlast bs\<rparr>;
                        g6 = g5\<lparr>line_to := line_to g5 @ tl bs\<rparr>
                    in if is_mesh then
                         (case py_getitem bs 0 of
                            Inl e \<Rightarrow> Inl e
                          | Inr c_first \<Rightarrow>
                              let g7 = g6\<lparr>line_from := line_from g6 @ [c_first]\<rparr>
                              in case py_getitem bs (- 1) of
                                   Inl e \<Rightarrow> Inl e
                                 | Inr c_last \<Rightarrow> Inr (g7\<lparr>line_to := line_to g7 @ [c_last]\<rparr>))
                       else Inr g6)"

text \<open>The \<^verbatim>\<open>for ring, is_mesh in zip(...)\<close> loop of \<open>create_grid_topo\<close>.\<close>

fun ring_loop :: "grid_data \<Rightarrow> (int \<times> bool) list \<Rightarrow> int \<Rightarrow> py_exn + grid_data" where
  "ring_loop grid_data [] n_ring_num = Inr grid_data"
| "ring_loop grid_data ((ring, is_mesh) # rest) n_ring_num =
     (case add_ring_bus_from_to grid_data n_ring_num is_mesh of
        Inl e \<Rightarrow> Inl e
      | Inr g \<Rightarrow> ring_loop g rest n_ring_num)"

text \<open>
  \<open>create_grid_topo\<close> with its three local constants as parameters, and the function
  itself, which fixes them to 2 rings of 4 buses with 1 mesh.
\<close>

definition is_mesh_list :: "int \<Rightarrow> int \<Rightarrow> bool list" where
  "is_mesh_list n_rings n_meshes =
     py_replicate n_meshes True @ py_replicate (n_rings - n_meshes) False"

definition create_grid_topo_with :: "int \<Rightarrow> int \<Rightarrow> int \<Rightarrow> py_exn + grid_data" where
  "create_grid_topo_with n_rings n_ring_num n_meshes =
     ring_loop \<lparr>id_end = 10, mv_bus = 0, line_from = [], line_to = [], buses = []\<rparr>
       (zip (py_range 0 n_rings) (is_mesh_list n_rings n_meshes)) n_ring_num"

definition create_grid_topo :: "py_exn + grid_data" where
  "create_grid_topo = create_grid_topo_with 2 4 1"

text \<open>The number of line entries of a built topology (\<open>None\<close> when building raised).\<close>

definition num_lines :: "py_exn + grid_data \<Rightarrow> nat option" where
  "num_lines r = (case r of Inl e \<Rightarrow> None | Inr g \<Rightarrow> Some (length (line_from g)))"

text \<open>
  The line count in the specification's words: bus count minus one per ring, plus one
  closing line per mesh-enabled ring.
\<close>

definition spec_line_count :: "int \<Rightarrow> bool list \<Rightarrow> int" where
  "spec_line_count n_ring_num flags =
     sum_list (map (\<lambda>is_mesh. (n_ring_num - 1) + (if is_mesh then 1 else 0)) flags)"

text \<open>
  The line count of the code: per ring one feeder line to the medium-voltage bus and bus
  count minus one chain lines, plus one closing line per mesh-enabled ring.
\<close>

definition ring_line_count :: "int \<Rightarrow> bool list \<Rightarrow> int" where
  "ring_line_count n_ring_num flags =
     sum_list (map (\<lambda>is_mesh. n_ring_num + (if is_mesh then 1 else 0)) flags)"

text \<open>
  The invariant of the identifier allocator: every allocated bus identifier is below
  \<open>id_end\<close>, and once a bus is allocated \<open>id_end\<close> is one more than the largest.
\<close>

definition id_end_inv :: "grid_data \<Rightarrow> bool" where
  "id_end_inv g =
     (list_all (\<lambda>b. b < id_end g) (buses g) \<and>
      (buses g = [] \<or> id_end g = Max (set (buses g)) + 1))"

section \<open>numpy arrays\<close>

text \<open>
  A one-dimensional array is a list, a two-dimensional array a list of rows of equal
  length. \<open>float64\<close> and \<open>complex128\<close> arithmetic is idealised as exact arithmetic on
  \<open>real\<close> and \<open>complex\<close>: rounding, overflow and NaN are not modelled.
\<close>

text \<open>
  An elementwise binary operation on two one-dimensional arrays, with numpy's broadcasting:
  equal lengths combine pointwise, an array of length one is stretched, any other pair of
  lengths raises \<open>ValueError\<close>.
\<close>

definition np_broadcast :: "('a \<Rightarrow> 'b \<Rightarrow> 'c) \<Rightarrow> 'a list \<Rightarrow> 'b list \<Rightarrow> py_exn + 'c list" where
  "np_broadcast f xs ys =
     (if length xs = length ys then Inr (map2 f xs ys)
      else if length xs = 1 then Inr (map (f (hd xs)) ys)
      else if length ys = 1 then Inr (map (\<lambda>x. f x (hd ys)) xs)
      else Inl ValueError)"

definition np_deg2rad :: "real list \<Rightarrow> real list" where
  "np_deg2rad xs = map (\<lambda>x. x * (pi / 180)) xs"

text \<open>
  \<^verbatim>\<open>M @ v\<close> for a two-dimensional \<open>M\<close> and a one-dimensional \<open>v\<close>: every row must be as
  long as \<open>v\<close>, otherwise numpy raises \<open>ValueError\<close>. The empty list of rows is the
  \<open>0 \<times> 0\<close> array.
\<close>

definition np_matvec :: "complex list list \<Rightarrow> complex list \<Rightarrow> py_exn + complex list" where
  "np_matvec M v =
     (if list_all (\<lambda>row. length row = length v) M \<and> (M = [] \<longrightarrow> v = [])
      then Inr (map (\<lambda>row. sum_list (map2 (*) row v)) M)
      else Inl ValueError)"

text \<open>\<^verbatim>\<open>np.diag(v)\<close> of a one-dimensional \<open>v\<close>: the square matrix with \<open>v\<close> on its diagonal.\<close>

definition np_diag :: "complex list \<Rightarrow> complex list list" where
  "np_diag v = map (\<lambda>i. map (\<lambda>j. if i = j then v ! i else 0) [0..<length v]) [0..<length v]"

definition np_conj :: "complex list \<Rightarrow> complex list" where
  "np_conj xs = map cnj xs"

section \<open>Residual (data\_generation\_solution\_prediction.py)\<close>

definition compute_residual ::
  "real list \<Rightarrow> real list \<Rightarrow> complex list list \<Rightarrow> complex list \<Rightarrow> py_exn + complex list" where
  "compute_residual V_mag V_ang Ybus S =
     (let V_rad = np_deg2rad V_ang;
          phasor = map exp (map (\<lambda>a. complex_of_real a * \<i>) V_rad)
      in case np_broadcast (\<lambda>m p. complex_of_real m * p) V_mag phasor of
           Inl e \<Rightarrow> Inl e
         | Inr complex_v \<Rightarrow>
             (case np_matvec Ybus complex_v of
                Inl e \<Rightarrow> Inl e
              | Inr current \<Rightarrow>
                  let diag_V = np_diag complex_v
                  in case np_matvec diag_V (np_conj current) of
                       Inl e \<Rightarrow> Inl e
                     | Inr apparent \<Rightarrow>
                         (case np_broadcast (-) apparent S of
                            Inl e \<Rightarrow> Inl e
                          | Inr residual \<Rightarrow> Inr (drop 1 residual))))"

text \<open>
  The residual in the specification's words: angles to radians, the complex voltage
  vector, the injected current as the admittance matrix applied to it, the apparent power
  as the elementwise product of voltage and conjugated current, minus the specified
  injection, without the entry of the reference bus.
\<close>

definition bus_voltage :: "real list \<Rightarrow> real list \<Rightarrow> nat \<Rightarrow> complex" where
  "bus_voltage V_mag V_ang j =
     complex_of_real (V_mag ! j) * exp (\<i> * complex_of_real (V_ang ! j * pi / 180))"

definition bus_current :: "real list \<Rightarrow> real list \<Rightarrow> complex list list \<Rightarrow> nat \<Rightarrow> complex" where
  "bus_current V_mag V_ang Ybus i =
     (\<Sum>j<length V_mag. Ybus ! i ! j * bus_voltage V_mag V_ang j)"

definition spec_residual ::
  "real list \<Rightarrow> real list \<Rightarrow> complex list list \<Rightarrow> complex list \<Rightarrow> complex list" where
  "spec_residual V_mag V_ang Ybus S =
     map (\<lambda>i. bus_voltage V_mag V_ang i * cnj (bus_current V_mag V_ang Ybus i) - S ! i)
       [1..<length V_mag]"

text \<open>Arguments of matching shape: \<open>n\<close> buses, an \<open>n \<times> n\<close> admittance matrix.\<close>

definition residual_shapes ::
  "real list \<Rightarrow> real list \<Rightarrow> complex list list \<Rightarrow> complex list \<Rightarrow> bool" where
  "residual_shapes V_mag V_ang Ybus S =
     (length V_ang = length V_mag \<and> length Ybus = length V_mag \<and>
      list_all (\<lambda>row. length row = length V_mag) Ybus \<and> length S = length V_mag)"

section \<open>Networks, the store and the solver\<close>

text \<open>
  The parts of a pandapower network object that \<open>generate_samples\<close> reads: the bus result
  table (\<^verbatim>\<open>net.res_bus.vm_pu.values\<close>, \<^verbatim>\<open>net.res_bus.va_degree.values\<close>) and the solver's
  internal state (\<^verbatim>\<open>net._ppc["iterations"]\<close>, \<^verbatim>\<open>net._ppc["et"]\<close>,
  \<^verbatim>\<open>net._ppc["internal"]["Ybus"].toarray()\<close>, \<^verbatim>\<open>net._ppc["internal"]["Sbus"]\<close>). They are
  read only after a solve that converged. Everything else of the network (buses, lines,
  loads, external grid) is \<open>elements\<close>.
\<close>

record 'g pp_net =
  elements :: 'g
  res_vm_pu :: "real list"
  res_va_degree :: "real list"
  ppc_iterations :: int
  ppc_et :: real
  ppc_Ybus :: "complex list list"
  ppc_Sbus :: "complex list"

text \<open>The keyword arguments of \<^verbatim>\<open>pp.runpp\<close> that the code passes.\<close>

record runpp_opts =
  init :: "string option"
  init_vm_pu :: "real list option"
  init_va_degree :: "real list option"
  max_iteration :: int
  tolerance_mva :: "real option"

text \<open>
  The external power-flow solver is a parameter: given a network and the options it
  returns the network as the call leaves it and whether the solve converged. When it did
  not, \<^verbatim>\<open>pp.runpp\<close> raises \<open>LoadflowNotConverged\<close>. A solver that fails in any other
  way is outside the model.
\<close>

type_synonym 'g solver = "'g pp_net \<Rightarrow> runpp_opts \<Rightarrow> 'g pp_net \<times> bool"

text \<open>Values stored in a sample record, and the record itself: a dictionary literal.\<close>

datatype np_val = FloatArray "real list" | IntScalar int

type_synonym sample = "(string \<times> np_val) list"

text \<open>\<^verbatim>\<open>d[key]\<close> on a dictionary: a missing key raises \<open>KeyError\<close>.\<close>

definition dict_getitem :: "('k \<times> 'v) list \<Rightarrow> 'k \<Rightarrow> py_exn + 'v" where
  "dict_getitem d k = (case map_of d k of None \<Rightarrow> Inl KeyError | Some v \<Rightarrow> Inr v)"

text \<open>
  The state that the dataset code acts on. Network objects live in a store, addressed by
  their position, so that copies and in-place solves are distinguished; \<open>samples\<close> is
  \<^verbatim>\<open>self.samples\<close>; \<open>stdout\<close> the printed lines; \<open>data_pkl\<close> the list last pickled to
  \<^verbatim>\<open>data.pkl\<close>; \<open>runpp_calls\<close> records, in order, the address of the network handed to
  each solver call. An address is valid when it is below the length of the store; a
  Python reference always is, so the theorems take the address of the base network to be
  valid.
\<close>

record 'g state =
  heap :: "'g pp_net list"
  samples :: "sample list"
  stdout :: "string list"
  data_pkl :: "sample list option"
  runpp_calls :: "nat list"

text \<open>The attributes of a \<open>PowerFlowDataset\<close> that are set once by the constructor.\<close>

record dataset =
  base_net :: nat
  num_samples :: int
  max_iteration_attr :: int
  tolerance_mva_attr :: real
  v_perturb :: real
  theta_perturb :: real

text \<open>\<^verbatim>\<open>net.deepcopy()\<close>: a new object with the same contents; the original is untouched.\<close>

definition deepcopy :: "'g state \<Rightarrow> nat \<Rightarrow> 'g state \<times> nat" where
  "deepcopy st a = (st\<lparr>heap := heap st @ [heap st ! a]\<rparr>, length (heap st))"

text \<open>
  \<^verbatim>\<open>pp.runpp(net, ...)\<close>: the solver works in place on the object at address \<open>a\<close> and on
  nothing else. The flag is \<open>False\<close> when \<open>LoadflowNotConverged\<close> is raised.
\<close>

definition runpp :: "'g solver \<Rightarrow> 'g state \<Rightarrow> nat \<Rightarrow> runpp_opts \<Rightarrow> 'g state \<times> bool" where
  "runpp solver st a opts =
     (let (net', converged) = solver (heap st ! a) opts
      in (st\<lparr>heap := (heap st)[a := net'], runpp_calls := runpp_calls st @ [a]\<rparr>, converged))"

section \<open>Random draws and printing\<close>

text \<open>
  \<^verbatim>\<open>np.random.uniform(low, high, size)\<close> returns \<open>size\<close> values; the values drawn are an
  input, \<open>src\<close>. Their documented range, \<open>low \<le> x < high\<close>, is \<open>uniform_range\<close>.
\<close>

definition np_random_uniform :: "(nat \<Rightarrow> real) \<Rightarrow> real \<Rightarrow> real \<Rightarrow> nat \<Rightarrow> real list" where
  "np_random_uniform src low high n = map src [0..<n]"


text \<open>The draws of the whole run: for sample \<open>k\<close>, those for the magnitudes and the angles.\<close>

record rng =
  draw_v :: "int \<Rightarrow> nat \<Rightarrow> real"
  draw_theta :: "int \<Rightarrow> nat \<Rightarrow> real"

text \<open>The sum of two arrays of the same length.\<close>

definition np_add :: "real list \<Rightarrow> real list \<Rightarrow> real list" where
  "np_add xs ys = map2 (+) xs ys"

text \<open>\<^verbatim>\<open>str(n)\<close> for an integer, as an f-string formats it.\<close>

fun str_nat :: "nat \<Rightarrow> string" where
  "str_nat n =
     (if n < 10 then [''0123456789'' ! n]
      else str_nat (n div 10) @ [''0123456789'' ! (n mod 10)])"

definition py_str :: "int \<Rightarrow> string" where
  "py_str i = (if i < 0 then CHR ''-'' # str_nat (nat (- i)) else str_nat (nat i))"

section \<open>Sample generation (data\_generation\_solution\_prediction.py)\<close>

text \<open>Lines 112 and 113: the perturbed initial guess of sample \<open>k\<close>.\<close>

definition v_ill :: "dataset \<Rightarrow> rng \<Rightarrow> real list \<Rightarrow> int \<Rightarrow> real list" where
  "v_ill self r v_nominal k =
     np_add v_nominal
       (np_random_uniform (draw_v r k) (- v_perturb self) (v_perturb self) (length v_nominal))"

definition theta_ill :: "dataset \<Rightarrow> rng \<Rightarrow> real list \<Rightarrow> int \<Rightarrow> real list" where
  "theta_ill self r theta_nominal k =
     np_add theta_nominal
       (np_random_uniform (draw_theta r k) (- theta_perturb self) (theta_perturb self)
          (length theta_nominal))"

text \<open>Lines 118 to 123: the options of the perturbed solve; line 98: those of the base solve.\<close>

definition ill_opts :: "dataset \<Rightarrow> real list \<Rightarrow> real list \<Rightarrow> runpp_opts" where
  "ill_opts self vs thetas =
     \<lparr>init = Some ''auto'', init_vm_pu = Some vs, init_va_degree = Some thetas,
      max_iteration = max_iteration_attr self, tolerance_mva = Some (tolerance_mva_attr self)\<rparr>"

definition base_opts :: runpp_opts where
  "base_opts =
     \<lparr>init = None, init_vm_pu = None, init_va_degree = None,
      max_iteration = 100, tolerance_mva = None\<rparr>"

text \<open>Lines 137 to 148: the record appended for a converged sample.\<close>

definition sample_record ::
  "complex list \<Rightarrow> complex list list \<Rightarrow> real list \<Rightarrow> real list \<Rightarrow> int \<Rightarrow> real list \<Rightarrow>
   real list \<Rightarrow> complex list \<Rightarrow> sample" where
  "sample_record S Ybus vs thetas it V_mag V_ang resd =
     [(''P'', FloatArray (map Re S)),
      (''Q'', FloatArray (map Im S)),
      (''G'', FloatArray (concat (map (map Re) Ybus))),
      (''B'', FloatArray (concat (map (map Im) Ybus))),
      (''V_init'', FloatArray vs),
      (''theta_init'', FloatArray thetas),
      (''iterations'', IntScalar it),
      (''V_pred'', FloatArray V_mag),
      (''Phi_pred'', FloatArray V_ang),
      (''resd_real'', FloatArray (map Re resd)),
      (''resd_imag'', FloatArray (map Im resd))]"

text \<open>
  The body of the \<^verbatim>\<open>for _ in range(self.num_samples)\<close> loop, lines 109 to 151, for loop
  index \<open>k\<close>; \<open>net\<close> is the address of the solved base case. The result carries the
  exception that leaves the loop, if any: only \<open>LoadflowNotConverged\<close> is caught.
\<close>

definition not_converged_msg :: "int \<Rightarrow> string" where
  "not_converged_msg k = ''Sample '' @ py_str k @ '': Ill-conditioned case did not converge!''"

definition sample_body ::
  "'g solver \<Rightarrow> dataset \<Rightarrow> rng \<Rightarrow> nat \<Rightarrow> real list \<Rightarrow> real list \<Rightarrow> int \<Rightarrow> 'g state \<Rightarrow>
   'g state \<times> py_exn option" where
  "sample_body solver self r net v_nominal theta_nominal k st =
     (let (st1, net_ill) = deepcopy st (base_net self);
          vs = v_ill self r v_nominal k;
          thetas = theta_ill self r theta_nominal k;
          (st2, converged) = runpp solver st1 net_ill (ill_opts self vs thetas)
      in if converged then
           let iterations = ppc_iterations (heap st2 ! net_ill);
               Ybus = ppc_Ybus (heap st2 ! net_ill);
               S = ppc_Sbus (heap st2 ! net_ill);
               it = ppc_iterations (heap st2 ! net);
               et = ppc_et (heap st2 ! net);
               V_mag = res_vm_pu (heap st2 ! net_ill);
               V_ang = res_va_degree (heap st2 ! net_ill)
           in case compute_residual V_mag V_ang Ybus S of
                Inl e \<Rightarrow> (st2, Some e)
              | Inr resd \<Rightarrow>
                  (st2\<lparr>samples := samples st2 @
                      [sample_record S Ybus vs thetas it V_mag V_ang resd]\<rparr>, None)
         else (st2\<lparr>stdout := stdout st2 @ [not_converged_msg k]\<rparr>, None))"

fun sample_loop ::
  "'g solver \<Rightarrow> dataset \<Rightarrow> rng \<Rightarrow> nat \<Rightarrow> real list \<Rightarrow> real list \<Rightarrow> int list \<Rightarrow> 'g state \<Rightarrow>
   'g state \<times> py_exn option" where
  "sample_loop solver self r net v_nominal theta_nominal [] st = (st, None)"
| "sample_loop solver self r net v_nominal theta_nominal (k # ks) st =
     (case sample_body solver self r net v_nominal theta_nominal k st of
        (st', Some e) \<Rightarrow> (st', Some e)
      | (st', None) \<Rightarrow> sample_loop solver self r net v_nominal theta_nominal ks st')"

text \<open>
  \<open>generate_samples\<close>, lines 96 to 154. When the base case does not converge the method
  returns at once; otherwise it runs the loop and pickles \<^verbatim>\<open>self.samples\<close>.
\<close>

definition generate_samples ::
  "'g solver \<Rightarrow> dataset \<Rightarrow> rng \<Rightarrow> 'g state \<Rightarrow> 'g state \<times> py_exn option" where
  "generate_samples solver self r st =
     (let (st1, net) = deepcopy st (base_net self);
          (st2, converged) = runpp solver st1 net base_opts
      in if converged then
           let v_nominal = res_vm_pu (heap st2 ! net);
               theta_nominal = res_va_degree (heap st2 ! net)
           in case sample_loop solver self r net v_nominal theta_nominal
                     (py_range 0 (num_samples self)) st2 of
                (st3, Some e) \<Rightarrow> (st3, Some e)
              | (st3, None) \<Rightarrow> (st3\<lparr>data_pkl := Some (samples st3)\<rparr>, None)
         else (st2, None))"

text \<open>
  The constructor, lines 70 to 80, on the network at address \<open>base_network\<close>. The two
  scalers are not modelled: nothing reads them.
\<close>

definition PowerFlowDataset_init ::
  "'g solver \<Rightarrow> rng \<Rightarrow> nat \<Rightarrow> int \<Rightarrow> int \<Rightarrow> real \<Rightarrow> real \<Rightarrow> real \<Rightarrow> 'g state \<Rightarrow>
   dataset \<times> 'g state \<times> py_exn option" where
  "PowerFlowDataset_init solver r base_network n_samples max_it tol v_pert theta_pert st =
     (let (st1, copy) = deepcopy st base_network;
          self = \<lparr>base_net = copy, num_samples = n_samples, max_iteration_attr = max_it,
                  tolerance_mva_attr = tol, v_perturb = v_pert, theta_perturb = theta_pert\<rparr>;
          st2 = st1\<lparr>samples := []\<rparr>
      in (self, generate_samples solver self r st2))"

text \<open>
  \<open>__len__\<close> and \<open>__getitem__\<close>, lines 158 to 166. \<^verbatim>\<open>torch.FloatTensor\<close> is a parameter.
\<close>

definition dataset_len :: "'g state \<Rightarrow> nat" where
  "dataset_len st = length (samples st)"

definition dataset_getitem ::
  "(np_val \<Rightarrow> py_exn + 't) \<Rightarrow> 'g state \<Rightarrow> int \<Rightarrow> py_exn + (string \<times> 't) list" where
  "dataset_getitem FloatTensor st idx =
     (case py_getitem (samples st) idx of
        Inl e \<Rightarrow> Inl e
      | Inr sample \<Rightarrow>
          (case dict_getitem sample ''input'' of
             Inl e \<Rightarrow> Inl e
           | Inr x \<Rightarrow>
               (case FloatTensor x of
                  Inl e \<Rightarrow> Inl e
                | Inr tx \<Rightarrow>
                    (case dict_getitem sample ''output'' of
                       Inl e \<Rightarrow> Inl e
                     | Inr y \<Rightarrow>
                         (case FloatTensor y of
                            Inl e \<Rightarrow> Inl e
                          | Inr ty \<Rightarrow> Inr [(''input'', tx), (''output'', ty)])))))"


text \<open>The eleven keys of a sample record.\<close>

definition sample_keys :: "string list" where
  "sample_keys = [''P'', ''Q'', ''G'', ''B'', ''V_init'', ''theta_init'', ''iterations'',
     ''V_pred'', ''Phi_pred'', ''resd_real'', ''resd_imag'']"

text \<open>
  The two solver results that a run is made of, for a dataset whose base network is the
  object \<open>base\<close>: the base-case solve of line 98, and the perturbed solve of sample \<open>k\<close>,
  lines 112 to 123, started from the base-case solution plus the draws.
\<close>

definition base_solve :: "'g solver \<Rightarrow> 'g pp_net \<Rightarrow> 'g pp_net \<times> bool" where
  "base_solve solver base = solver base base_opts"

definition perturbed_solve ::
  "'g solver \<Rightarrow> dataset \<Rightarrow> rng \<Rightarrow> 'g pp_net \<Rightarrow> int \<Rightarrow> 'g pp_net \<times> bool" where
  "perturbed_solve solver self r base k =
     solver base
       (ill_opts self
          (v_ill self r (res_vm_pu (fst (base_solve solver base))) k)
          (theta_ill self r (res_va_degree (fst (base_solve solver base))) k))"

text \<open>
  What one iteration appends when its solve converges: the record of line 137, built from
  the result \<open>res\<close> of the perturbed solve, the perturbed initial guess and the iteration
  count \<open>it\<close>.
\<close>

definition converged_record ::
  "'g solver \<Rightarrow> dataset \<Rightarrow> rng \<Rightarrow> 'g pp_net \<Rightarrow> real list \<Rightarrow> real list \<Rightarrow> int \<Rightarrow> int \<Rightarrow>
   sample \<Rightarrow> bool" where
  "converged_record solver self r base v_nominal theta_nominal it k s =
     (let vs = v_ill self r v_nominal k;
          thetas = theta_ill self r theta_nominal k;
          res = solver base (ill_opts self vs thetas)
      in snd res \<and>
         (case compute_residual (res_vm_pu (fst res)) (res_va_degree (fst res))
                 (ppc_Ybus (fst res)) (ppc_Sbus (fst res)) of
            Inl e \<Rightarrow> False
          | Inr resd \<Rightarrow>
              s = sample_record (ppc_Sbus (fst res)) (ppc_Ybus (fst res)) vs thetas it
                    (res_vm_pu (fst res)) (res_va_degree (fst res)) resd))"

text \<open>Whether the perturbed solve of iteration \<open>k\<close> converges.\<close>

definition draw_converges ::
  "'g solver \<Rightarrow> dataset \<Rightarrow> rng \<Rightarrow> 'g pp_net \<Rightarrow> real list \<Rightarrow> real list \<Rightarrow> int \<Rightarrow> bool" where
  "draw_converges solver self r base v_nominal theta_nominal k =
     snd (solver base
       (ill_opts self (v_ill self r v_nominal k) (theta_ill self r theta_nominal k)))"

section \<open>A two-bus example\<close>

text \<open>
  An example solver on a two-bus network, to instantiate the theorems below. The base case
  converges in 3 iterations. A perturbed start converges, in 7 iterations and to the same
  solution, exactly when the initial magnitude at the first bus is at least 1; otherwise
  the network is left as it was.
\<close>

definition two_bus_solved :: "int \<Rightarrow> unit pp_net \<Rightarrow> unit pp_net" where
  "two_bus_solved its net =
     net\<lparr>res_vm_pu := [1, 1 / 2], res_va_degree := [0, 0], ppc_iterations := its, ppc_et := 0,
         ppc_Ybus := [[1, - 1], [- 1, 1]], ppc_Sbus := [1 / 2, - (1 / 4)]\<rparr>"

definition two_bus_solver :: "unit solver" where
  "two_bus_solver net opts =
     (case init_vm_pu opts of
        None \<Rightarrow> (two_bus_solved 3 net, True)
      | Some [] \<Rightarrow> (net, False)
      | Some (v # vs) \<Rightarrow> if 1 \<le> v then (two_bus_solved 7 net, True) else (net, False))"

definition two_bus_net :: "unit pp_net" where
  "two_bus_net =
     \<lparr>elements = (), res_vm_pu = [], res_va_degree = [], ppc_iterations = 0, ppc_et = 0,
      ppc_Ybus = [], ppc_Sbus = []\<rparr>"

text \<open>
  The state before the constructor runs, with the caller's network at address 0, and the
  state in which the constructor calls \<open>generate_samples\<close>, with its copy at address 1.
\<close>

definition two_bus_initial :: "unit state" where
  "two_bus_initial =
     \<lparr>heap = [two_bus_net], samples = [], stdout = [], data_pkl = None, runpp_calls = []\<rparr>"

definition two_bus_state :: "unit state" where
  "two_bus_state =
     \<lparr>heap = [two_bus_net, two_bus_net], samples = [], stdout = [], data_pkl = None,
      runpp_calls = []\<rparr>"

definition two_bus_rng :: rng where
  "two_bus_rng =
     \<lparr>draw_v = (\<lambda>k i. if k = 0 then 1 / 10 else - (1 / 10)), draw_theta = (\<lambda>k i. 5)\<rparr>"

definition two_bus_dataset :: dataset where
  "two_bus_dataset =
     \<lparr>base_net = 1, num_samples = 2, max_iteration_attr = 50, tolerance_mva_attr = 1 / 100000,
      v_perturb = 3 / 20, theta_perturb = 30\<rparr>"

text \<open>The record of the one converged sample of the example, and the state after the run.\<close>

definition two_bus_sample :: sample where
  "two_bus_sample =
     sample_record [1 / 2, - (1 / 4)] [[1, - 1], [- 1, 1]] [11 / 10, 3 / 5] [5, 5] 3
       [1, 1 / 2] [0, 0] [0]"

definition two_bus_final :: "unit state" where
  "two_bus_final =
     \<lparr>heap = [two_bus_net, two_bus_net, two_bus_solved 3 two_bus_net,
              two_bus_solved 7 two_bus_net, two_bus_net],
      samples = [two_bus_sample],
      stdout = [''Sample 1: Ill-conditioned case did not converge!''],
      data_pkl = Some [two_bus_sample],
      runpp_calls = [2, 3, 4]\<rparr>"

section \<open>Properties of the ring topology\<close>

subsection \<open>Ranges and indexing\<close>

lemma length_py_range: "length (py_range a b) = nat (b - a)"
  by (simp add: py_range_def)

lemma set_py_range: "set (py_range a b) = {a..<b}"
  by (auto simp add: py_range_def)

lemma py_range_last: "1 \<le> n \<Longrightarrow> py_getitem (py_range a (a + n)) (- 1) = Inr (a + n - 1)"
  by (simp add: py_getitem_def py_range_def)

lemma py_range_first: "1 \<le> n \<Longrightarrow> py_getitem (py_range a (a + n)) 0 = Inr a"
  by (simp add: py_getitem_def py_range_def)

lemma py_range_empty: "n \<le> 0 \<Longrightarrow> py_range a (a + n) = []"
  by (simp add: py_range_def)

lemma py_getitem_Nil: "py_getitem [] i = Inl IndexError"
  by (simp add: py_getitem_def)

lemma add_ring_ok:
  assumes "1 \<le> n"
  shows "add_ring_bus_from_to g n m =
    Inr (g\<lparr>buses := buses g @ py_range (id_end g) (id_end g + n),
            id_end := id_end g + n,
            line_from := line_from g @ [id_end g] @ butlast (py_range (id_end g) (id_end g + n))
                           @ (if m then [id_end g] else []),
            line_to := line_to g @ [mv_bus g] @ tl (py_range (id_end g) (id_end g + n))
                           @ (if m then [id_end g + n - 1] else [])\<rparr>)"
  using assms
  by (simp add: add_ring_bus_from_to_def Let_def py_range_last py_range_first)

lemma add_ring_fail: "n \<le> 0 \<Longrightarrow> add_ring_bus_from_to g n m = Inl IndexError"
  by (simp add: add_ring_bus_from_to_def Let_def py_range_empty py_getitem_Nil)

lemma add_ring_Inr_pos: "add_ring_bus_from_to g n m = Inr g' \<Longrightarrow> 1 \<le> n"
  using add_ring_fail [of n g m] by (cases "1 \<le> n") auto

lemma add_ring_lines:
  assumes "add_ring_bus_from_to g n m = Inr g'"
  shows "int (length (line_from g')) = int (length (line_from g)) + n + (if m then 1 else 0)"
    and "int (length (line_to g')) = int (length (line_to g)) + n + (if m then 1 else 0)"
proof -
  have n: "1 \<le> n" using assms by (rule add_ring_Inr_pos)
  from assms add_ring_ok [OF n, of g m]
  have g': "g' = g\<lparr>buses := buses g @ py_range (id_end g) (id_end g + n),
            id_end := id_end g + n,
            line_from := line_from g @ [id_end g] @ butlast (py_range (id_end g) (id_end g + n))
                           @ (if m then [id_end g] else []),
            line_to := line_to g @ [mv_bus g] @ tl (py_range (id_end g) (id_end g + n))
                           @ (if m then [id_end g + n - 1] else [])\<rparr>"
    by simp
  show "int (length (line_from g')) = int (length (line_from g)) + n + (if m then 1 else 0)"
    using n by (simp add: g' length_py_range)
  show "int (length (line_to g')) = int (length (line_to g)) + n + (if m then 1 else 0)"
    using n by (simp add: g' length_py_range)
qed

lemma ring_loop_lines:
  "ring_loop g ps n = Inr g' \<Longrightarrow>
     int (length (line_from g')) = int (length (line_from g)) + ring_line_count n (map snd ps) \<and>
     int (length (line_to g')) = int (length (line_to g)) + ring_line_count n (map snd ps)"
proof (induction ps arbitrary: g)
  case Nil
  then show ?case by (simp add: ring_line_count_def)
next
  case (Cons p ps)
  obtain ring is_mesh where p: "p = (ring, is_mesh)" by (cases p)
  from Cons.prems p obtain g1 where
    g1: "add_ring_bus_from_to g n is_mesh = Inr g1" and rest: "ring_loop g1 ps n = Inr g'"
    by (auto split: sum.splits)
  from Cons.IH [OF rest] add_ring_lines [OF g1] show ?case
    by (simp add: p ring_line_count_def)
qed

lemma zipped_flags:
  "map snd (zip (py_range 0 r) (is_mesh_list r m)) =
     replicate (min (nat r) (nat m)) True @ replicate (nat r - nat m) False"
proof -
  have "map snd (zip (py_range 0 r) (is_mesh_list r m)) = take (nat r) (is_mesh_list r m)"
    by (simp add: map_snd_zip_take length_py_range min_def is_mesh_list_def py_replicate_def)
  also have "\<dots> = replicate (min (nat r) (nat m)) True @ replicate (nat r - nat m) False"
    by (auto simp add: is_mesh_list_def py_replicate_def min_def nat_diff_distrib')
  finally show ?thesis .
qed

lemma ring_line_count_replicate:
  "ring_line_count n (replicate a True @ replicate b False) = int a * (n + 1) + int b * n"
  by (simp add: ring_line_count_def sum_list_replicate)

lemma Max_append_range:
  assumes "1 \<le> n" "list_all (\<lambda>b. b < a) xs"
  shows "Max (set (xs @ py_range a (a + n))) = a + n - 1"
proof (rule Max_eqI)
  show "finite (set (xs @ py_range a (a + n)))" by simp
  show "a + n - 1 \<in> set (xs @ py_range a (a + n))" using assms by (simp add: set_py_range)
  fix y assume "y \<in> set (xs @ py_range a (a + n))"
  then show "y \<le> a + n - 1" using assms by (auto simp add: set_py_range list_all_iff)
qed

subsection \<open>Line count\<close>

text \<open>
  Claim C1 as stated does not hold: \<open>create_grid_topo\<close> builds 9 line entries, while bus
  count minus one per ring plus one closing line for the mesh ring gives 7. Each ring also
  gets one feeder line from its first bus to the medium-voltage bus.
\<close>

theorem create_grid_topo_spec_count_counterexample:
  "num_lines create_grid_topo = Some 9 \<and> spec_line_count 4 (is_mesh_list 2 1) = 7"
  by code_simp

text \<open>
  Claim C1, amended: in every topology built by \<open>create_grid_topo\<close> (for any ring
  count, ring size and mesh count), \<open>line_from\<close> and \<open>line_to\<close> have the same number of
  entries, and that number is, per ring, the ring's bus count (one feeder line to the
  medium-voltage bus and bus count minus one chain lines), plus one closing line for each
  mesh-enabled ring.
\<close>

theorem create_grid_topo_line_count:
  assumes "create_grid_topo_with n_rings n_ring_num n_meshes = Inr g"
  shows "int (length (line_from g)) =
           ring_line_count n_ring_num (map snd (zip (py_range 0 n_rings) (is_mesh_list n_rings n_meshes)))
       \<and> length (line_to g) = length (line_from g)
       \<and> int (length (line_from g)) =
           max 0 n_rings * n_ring_num + min (max 0 n_rings) (max 0 n_meshes)"
proof -
  let ?flags = "map snd (zip (py_range 0 n_rings) (is_mesh_list n_rings n_meshes))"
  from assms ring_loop_lines
    [of "\<lparr>id_end = 10, mv_bus = 0, line_from = [], line_to = [], buses = []\<rparr>"
        "zip (py_range 0 n_rings) (is_mesh_list n_rings n_meshes)" n_ring_num g]
  have a: "int (length (line_from g)) = ring_line_count n_ring_num ?flags"
    and b: "int (length (line_to g)) = ring_line_count n_ring_num ?flags"
    by (simp_all add: create_grid_topo_with_def)
  have c: "ring_line_count n_ring_num ?flags =
      max 0 n_rings * n_ring_num + min (max 0 n_rings) (max 0 n_meshes)"
    unfolding zipped_flags ring_line_count_replicate
    by (auto simp add: min_def max_def algebra_simps nat_diff_distrib')
  from a b c show ?thesis by simp
qed

theorem create_grid_topo_line_count_witness:
  "create_grid_topo_with 2 4 1 =
     Inr \<lparr>id_end = 18, mv_bus = 0,
        line_from = [10, 10, 11, 12, 10, 14, 14, 15, 16],
        line_to = [0, 11, 12, 13, 13, 0, 15, 16, 17],
        buses = [10, 11, 12, 13, 14, 15, 16, 17]\<rparr> \<and>
   length [10, 10, 11, 12, 10, 14, 14, 15, 16 :: int] = 9 \<and>
   max 0 2 * 4 + min (max 0 2) (max 0 1) = (9 :: int)"
proof -
  have e: "create_grid_topo_with 2 4 1 =
     Inr \<lparr>id_end = 18, mv_bus = 0,
        line_from = [10, 10, 11, 12, 10, 14, 14, 15, 16],
        line_to = [0, 11, 12, 13, 13, 0, 15, 16, 17],
        buses = [10, 11, 12, 13, 14, 15, 16, 17]\<rparr>"
    by code_simp
  from create_grid_topo_line_count [OF e] show ?thesis using e by simp
qed

subsection \<open>Bounds of the list accesses\<close>

text \<open>
  Claim C9: \<open>add_ring_bus_from_to\<close> returns normally exactly for \<open>n_ring_num \<ge> 1\<close>. For
  \<open>n_ring_num = 0\<close> (and below) the allocated bus list is empty and \<^verbatim>\<open>buses[-1]\<close> and
  \<^verbatim>\<open>buses[0]\<close> raise \<open>IndexError\<close>; for \<open>n_ring_num \<ge> 1\<close> both accesses are in bounds
  and the call returns a grid.
\<close>

theorem add_ring_bus_from_to_defined:
  "(n_ring_num \<le> 0 \<longrightarrow>
      py_getitem (py_range (id_end g) (id_end g + n_ring_num)) (- 1) = Inl IndexError \<and>
      py_getitem (py_range (id_end g) (id_end g + n_ring_num)) 0 = Inl IndexError \<and>
      add_ring_bus_from_to g n_ring_num is_mesh = Inl IndexError) \<and>
   (1 \<le> n_ring_num \<longrightarrow>
      py_getitem (py_range (id_end g) (id_end g + n_ring_num)) (- 1) = Inr (id_end g + n_ring_num - 1) \<and>
      py_getitem (py_range (id_end g) (id_end g + n_ring_num)) 0 = Inr (id_end g) \<and>
      (\<exists>g'. add_ring_bus_from_to g n_ring_num is_mesh = Inr g'))"
  by (simp add: add_ring_ok add_ring_fail py_range_last py_range_first py_range_empty py_getitem_Nil)

theorem add_ring_bus_from_to_defined_witness:
  "add_ring_bus_from_to \<lparr>id_end = 10, mv_bus = 0, line_from = [], line_to = [], buses = []\<rparr> 0 True
     = Inl IndexError \<and>
   py_getitem (py_range 10 (10 + 3)) (- 1) = Inr (12 :: int) \<and>
   py_getitem (py_range 10 (10 + 3)) 0 = Inr (10 :: int) \<and>
   add_ring_bus_from_to \<lparr>id_end = 10, mv_bus = 0, line_from = [], line_to = [], buses = []\<rparr> 3 True
     = Inr \<lparr>id_end = 13, mv_bus = 0, line_from = [10, 10, 11, 10], line_to = [0, 11, 12, 12],
            buses = [10, 11, 12]\<rparr>"
proof -
  let ?g = "\<lparr>id_end = 10, mv_bus = 0, line_from = [], line_to = [], buses = []\<rparr>"
  have a: "add_ring_bus_from_to ?g 3 True
     = Inr \<lparr>id_end = 13, mv_bus = 0, line_from = [10, 10, 11, 10], line_to = [0, 11, 12, 12],
            buses = [10, 11, 12]\<rparr>"
    by code_simp
  from add_ring_bus_from_to_defined [of 0 ?g True] add_ring_bus_from_to_defined [of 3 ?g True] a
  show ?thesis by simp
qed

subsection \<open>Identifier allocation\<close>

text \<open>
  Claim C10: a call of \<open>add_ring_bus_from_to\<close> that returns allocates exactly the
  consecutive identifiers \<open>id_end, \<dots>, id_end + n_ring_num - 1\<close>, appends them to the bus
  list and advances \<open>id_end\<close> by \<open>n_ring_num\<close>. It preserves the invariant that \<open>id_end\<close> is
  one more than the largest allocated identifier, the new identifiers are disjoint from all
  earlier ones, and the identifiers of two successive calls are disjoint.
\<close>

theorem add_ring_bus_from_to_id_end:
  assumes "add_ring_bus_from_to g n_ring_num is_mesh = Inr g'"
  shows "buses g' = buses g @ py_range (id_end g) (id_end g + n_ring_num) \<and>
         set (py_range (id_end g) (id_end g + n_ring_num)) = {id_end g ..< id_end g + n_ring_num} \<and>
         id_end g' = id_end g + n_ring_num \<and>
         (id_end_inv g \<longrightarrow>
            id_end_inv g' \<and> id_end g' = Max (set (buses g')) + 1 \<and>
            set (buses g) \<inter> set (py_range (id_end g) (id_end g + n_ring_num)) = {}) \<and>
         (\<forall>n2 mesh2 g''. add_ring_bus_from_to g' n2 mesh2 = Inr g'' \<longrightarrow>
            set (py_range (id_end g) (id_end g + n_ring_num)) \<inter>
            set (py_range (id_end g') (id_end g' + n2)) = {})"
proof -
  have n: "1 \<le> n_ring_num" using assms by (rule add_ring_Inr_pos)
  from assms add_ring_ok [OF n, of g is_mesh]
  have b: "buses g' = buses g @ py_range (id_end g) (id_end g + n_ring_num)"
    and i: "id_end g' = id_end g + n_ring_num"
    by auto
  have inv: "id_end_inv g'" and mx: "id_end g' = Max (set (buses g')) + 1"
    and dj: "set (buses g) \<inter> set (py_range (id_end g) (id_end g + n_ring_num)) = {}"
    if "id_end_inv g"
  proof -
    from that have lt: "list_all (\<lambda>b. b < id_end g) (buses g)" by (simp add: id_end_inv_def)
    show mx: "id_end g' = Max (set (buses g')) + 1"
      unfolding b i Max_append_range [OF n lt] by simp
    have "list_all (\<lambda>b. b < id_end g') (buses g')"
      using lt n by (auto simp add: b i list_all_iff set_py_range)
    with mx show "id_end_inv g'" by (simp add: id_end_inv_def)
    show "set (buses g) \<inter> set (py_range (id_end g) (id_end g + n_ring_num)) = {}"
      using lt by (auto simp add: list_all_iff set_py_range)
  qed
  have succ: "set (py_range (id_end g) (id_end g + n_ring_num)) \<inter>
            set (py_range (id_end g') (id_end g' + n2)) = {}" for n2
    by (auto simp add: set_py_range i)
  from b i inv mx dj succ show ?thesis by (simp add: set_py_range)
qed

theorem add_ring_bus_from_to_id_end_witness:
  "id_end_inv \<lparr>id_end = 10, mv_bus = 0, line_from = [], line_to = [], buses = [7, 9]\<rparr> \<and>
   add_ring_bus_from_to \<lparr>id_end = 10, mv_bus = 0, line_from = [], line_to = [], buses = [7, 9]\<rparr> 3 False
     = Inr \<lparr>id_end = 13, mv_bus = 0, line_from = [10, 10, 11], line_to = [0, 11, 12],
            buses = [7, 9, 10, 11, 12]\<rparr> \<and>
   id_end_inv \<lparr>id_end = 13, mv_bus = 0, line_from = [10, 10, 11], line_to = [0, 11, 12],
            buses = [7, 9, 10, 11, 12]\<rparr> \<and>
   set [7, 9] \<inter> set (py_range 10 (10 + 3)) = {}"
proof -
  let ?g = "\<lparr>id_end = 10, mv_bus = 0, line_from = [], line_to = [], buses = [7, 9]\<rparr>"
  let ?g' = "\<lparr>id_end = 13, mv_bus = 0, line_from = [10, 10, 11], line_to = [0, 11, 12],
            buses = [7, 9, 10, 11, 12]\<rparr>"
  have a: "add_ring_bus_from_to ?g 3 False = Inr ?g'" by code_simp
  have i: "id_end_inv ?g" by (simp add: id_end_inv_def)
  from add_ring_bus_from_to_id_end [OF a] i
  have "id_end_inv ?g' \<and> set (buses ?g) \<inter> set (py_range (id_end ?g) (id_end ?g + 3)) = {}"
    by blast
  with i a show ?thesis by simp
qed

section \<open>Properties of the residual\<close>

subsection \<open>Matrix products on lists\<close>

lemma np_broadcast_same: "length xs = length ys \<Longrightarrow> np_broadcast f xs ys = Inr (map2 f xs ys)"
  by (simp add: np_broadcast_def)

lemma sum_list_map2_nth:
  fixes xs ys :: "complex list"
  assumes "length xs = length ys"
  shows "sum_list (map2 (*) xs ys) = (\<Sum>j<length ys. xs ! j * ys ! j)"
proof -
  have "sum_list (map2 (*) xs ys) = (\<Sum>j = 0..<length (map2 (*) xs ys). map2 (*) xs ys ! j)"
    by (rule sum_list_sum_nth)
  also have "\<dots> = (\<Sum>j = 0..<length ys. xs ! j * ys ! j)"
    using assms by (intro sum.cong) auto
  finally show ?thesis by (simp add: lessThan_atLeast0)
qed

lemma np_matvec_diag:
  assumes "length w = length v"
  shows "np_matvec (np_diag v) w = Inr (map2 (*) v w)"
proof -
  have rows: "list_all (\<lambda>row. length row = length w) (np_diag v)"
    using assms by (simp add: np_diag_def list_all_iff)
  have "map (\<lambda>row. sum_list (map2 (*) row w)) (np_diag v) = map2 (*) v w"
  proof (rule nth_equalityI)
    show "length (map (\<lambda>row. sum_list (map2 (*) row w)) (np_diag v)) = length (map2 (*) v w)"
      using assms by (simp add: np_diag_def)
    fix i assume "i < length (map (\<lambda>row. sum_list (map2 (*) row w)) (np_diag v))"
    then have i: "i < length v" by (simp add: np_diag_def)
    have "sum_list (map2 (*) (map (\<lambda>j. if i = j then v ! i else 0) [0..<length v]) w)
        = (\<Sum>j<length w. (map (\<lambda>j. if i = j then v ! i else 0) [0..<length v]) ! j * w ! j)"
      using assms by (intro sum_list_map2_nth) simp
    also have "\<dots> = (\<Sum>j<length v. (if i = j then v ! i * w ! i else 0))"
      using assms by (intro sum.cong) auto
    also have "\<dots> = v ! i * w ! i"
      using i by simp
    finally show "map (\<lambda>row. sum_list (map2 (*) row w)) (np_diag v) ! i = map2 (*) v w ! i"
      using i assms by (simp add: np_diag_def)
  qed
  moreover have "np_diag v = [] \<longrightarrow> w = []"
    using assms by (auto simp add: np_diag_def)
  ultimately show ?thesis using rows by (simp add: np_matvec_def)
qed

lemma complex_v_nth:
  assumes "length V_ang = length V_mag" "j < length V_mag"
  shows "map2 (\<lambda>m p. complex_of_real m * p) V_mag
           (map exp (map (\<lambda>a. complex_of_real a * \<i>) (np_deg2rad V_ang))) ! j
         = bus_voltage V_mag V_ang j"
  using assms by (simp add: np_deg2rad_def bus_voltage_def mult.commute)

lemma compute_residual_unfold:
  assumes "residual_shapes V_mag V_ang Ybus S"
  shows "compute_residual V_mag V_ang Ybus S =
     Inr (drop 1 (map2 (-)
       (map2 (*)
          (map2 (\<lambda>m p. complex_of_real m * p) V_mag
             (map exp (map (\<lambda>a. complex_of_real a * \<i>) (np_deg2rad V_ang))))
          (np_conj (map (\<lambda>row. sum_list (map2 (*) row
             (map2 (\<lambda>m p. complex_of_real m * p) V_mag
               (map exp (map (\<lambda>a. complex_of_real a * \<i>) (np_deg2rad V_ang)))))) Ybus)))
       S))"
proof -
  let ?cv = "map2 (\<lambda>m p. complex_of_real m * p) V_mag
             (map exp (map (\<lambda>a. complex_of_real a * \<i>) (np_deg2rad V_ang)))"
  let ?cur = "map (\<lambda>row. sum_list (map2 (*) row ?cv)) Ybus"
  from assms have len: "length V_ang = length V_mag" "length Ybus = length V_mag"
    "list_all (\<lambda>row. length row = length V_mag) Ybus" "length S = length V_mag"
    by (simp_all add: residual_shapes_def)
  have lcv: "length ?cv = length V_mag" using len by (simp add: np_deg2rad_def)
  have b1: "np_broadcast (\<lambda>m p. complex_of_real m * p) V_mag
             (map exp (map (\<lambda>a. complex_of_real a * \<i>) (np_deg2rad V_ang))) = Inr ?cv"
    using len by (simp add: np_broadcast_same np_deg2rad_def)
  have m1: "np_matvec Ybus ?cv = Inr ?cur"
    using len lcv by (auto simp add: np_matvec_def)
  have m2: "np_matvec (np_diag ?cv) (np_conj ?cur) = Inr (map2 (*) ?cv (np_conj ?cur))"
    using len lcv by (intro np_matvec_diag) (simp add: np_conj_def)
  have b2: "np_broadcast (-) (map2 (*) ?cv (np_conj ?cur)) S
      = Inr (map2 (-) (map2 (*) ?cv (np_conj ?cur)) S)"
    using len lcv by (intro np_broadcast_same) (simp add: np_conj_def)
  show ?thesis
    unfolding compute_residual_def Let_def b1 sum.case m1 m2 b2 ..
qed

subsection \<open>The residual is the power mismatch without the reference bus\<close>

text \<open>
  Claim C2: for voltage magnitudes, angles in degrees, an admittance matrix and an injection
  vector of matching shape, \<open>compute_residual\<close> returns \<open>diag(V) conj(Ybus V) - S\<close> with
  \<open>V = V_mag exp(i deg2rad(V_ang))\<close>, without the entry at index 0: the result has one entry
  less than there are buses, and its entry \<open>k\<close> is the product of the voltage at bus \<open>k + 1\<close>
  and the conjugate of the current injected there, minus the injection specified there. The
  product with the diagonal matrix is the elementwise product of the specification.
\<close>

theorem compute_residual_spec:
  assumes "residual_shapes V_mag V_ang Ybus S"
  shows "compute_residual V_mag V_ang Ybus S = Inr (spec_residual V_mag V_ang Ybus S) \<and>
         length (spec_residual V_mag V_ang Ybus S) = length V_mag - 1 \<and>
         (\<forall>k<length V_mag - 1.
            spec_residual V_mag V_ang Ybus S ! k =
              bus_voltage V_mag V_ang (k + 1) * cnj (bus_current V_mag V_ang Ybus (k + 1))
                - S ! (k + 1))"
proof -
  define cv where "cv = map2 (\<lambda>m p. complex_of_real m * p) V_mag
             (map exp (map (\<lambda>a. complex_of_real a * \<i>) (np_deg2rad V_ang)))"
  define cur where "cur = map (\<lambda>row. sum_list (map2 (*) row cv)) Ybus"
  define res where "res = map2 (-) (map2 (*) cv (np_conj cur)) S"
  from assms have len: "length V_ang = length V_mag" "length Ybus = length V_mag"
    "list_all (\<lambda>row. length row = length V_mag) Ybus" "length S = length V_mag"
    by (simp_all add: residual_shapes_def)
  have lcv: "length cv = length V_mag" using len by (simp add: cv_def np_deg2rad_def)
  have cv: "cv ! j = bus_voltage V_mag V_ang j" if "j < length V_mag" for j
    unfolding cv_def using len(1) that by (rule complex_v_nth)
  have lcur: "length cur = length V_mag" using len by (simp add: cur_def)
  have cur: "cur ! i = bus_current V_mag V_ang Ybus i" if i: "i < length V_mag" for i
  proof -
    from len i have "length (Ybus ! i) = length V_mag" by (simp add: list_all_length)
    with lcv have "length (Ybus ! i) = length cv" by simp
    then have "sum_list (map2 (*) (Ybus ! i) cv) = (\<Sum>j<length cv. Ybus ! i ! j * cv ! j)"
      by (rule sum_list_map2_nth)
    also have "\<dots> = (\<Sum>j<length V_mag. Ybus ! i ! j * bus_voltage V_mag V_ang j)"
      unfolding lcv by (intro sum.cong refl) (simp add: cv)
    finally show ?thesis using i len by (simp add: bus_current_def cur_def)
  qed
  have lres: "length res = length V_mag" using len lcv lcur by (simp add: res_def np_conj_def)
  have res: "res ! i = bus_voltage V_mag V_ang i * cnj (bus_current V_mag V_ang Ybus i) - S ! i"
    if i: "i < length V_mag" for i
  proof -
    have "res ! i = cv ! i * cnj (cur ! i) - S ! i"
      using i len lcv lcur by (simp add: res_def np_conj_def)
    then show ?thesis by (simp add: cv cur i)
  qed
  have eq: "drop 1 res = spec_residual V_mag V_ang Ybus S"
  proof (rule nth_equalityI)
    show "length (drop 1 res) = length (spec_residual V_mag V_ang Ybus S)"
      using lres by (simp add: spec_residual_def)
    fix k assume "k < length (drop 1 res)"
    then have k: "k + 1 < length V_mag" using lres by simp
    then have "drop 1 res ! k = res ! (k + 1)" using lres by simp
    also have "\<dots> = bus_voltage V_mag V_ang (k + 1) * cnj (bus_current V_mag V_ang Ybus (k + 1))
                - S ! (k + 1)"
      using k by (rule res)
    finally have "drop 1 res ! k =
        bus_voltage V_mag V_ang (k + 1) * cnj (bus_current V_mag V_ang Ybus (k + 1)) - S ! (k + 1)" .
    moreover have "[1..<length V_mag] ! k = k + 1"
      using k by (simp add: nth_upt)
    moreover have "k < length [1..<length V_mag]" using k by simp
    ultimately show "drop 1 res ! k = spec_residual V_mag V_ang Ybus S ! k"
      by (simp only: spec_residual_def nth_map)
  qed
  have "compute_residual V_mag V_ang Ybus S = Inr (drop 1 res)"
    unfolding res_def cur_def cv_def using assms by (rule compute_residual_unfold)
  with eq have a: "compute_residual V_mag V_ang Ybus S = Inr (spec_residual V_mag V_ang Ybus S)"
    by simp
  have b: "length (spec_residual V_mag V_ang Ybus S) = length V_mag - 1"
    by (simp add: spec_residual_def)
  have c: "\<forall>k<length V_mag - 1.
            spec_residual V_mag V_ang Ybus S ! k =
              bus_voltage V_mag V_ang (k + 1) * cnj (bus_current V_mag V_ang Ybus (k + 1))
                - S ! (k + 1)"
    by (simp add: spec_residual_def)
  from a b c show ?thesis by blast
qed

theorem compute_residual_spec_witness:
  "residual_shapes [1, 2] [0, 180] [[1, \<i>], [\<i>, 1]] [0, 1] \<and>
   compute_residual [1, 2] [0, 180] [[1, \<i>], [\<i>, 1]] [0, 1] = Inr [3 + 2 * \<i>]"
proof -
  have s: "residual_shapes [1, 2] [0, 180] [[1, \<i>], [\<i>, 1]] [0, 1]"
    by (simp add: residual_shapes_def)
  have v0: "bus_voltage [1, 2] [0, 180] 0 = 1"
    by (simp add: bus_voltage_def)
  have v1: "bus_voltage [1, 2] [0, 180] (Suc 0) = - 2"
    by (simp add: bus_voltage_def)
  have c1: "bus_current [1, 2] [0, 180] [[1, \<i>], [\<i>, 1]] (Suc 0) = \<i> - 2"
    by (simp add: bus_current_def lessThan_Suc numeral_2_eq_2 v0 v1)
  have "spec_residual [1, 2] [0, 180] [[1, \<i>], [\<i>, 1]] [0, 1] = [3 + 2 * \<i>]"
    by (simp add: spec_residual_def v1 c1 upt_rec [of 1 2])
  with compute_residual_spec [OF s] s show ?thesis by simp
qed

section \<open>Properties of sample generation\<close>

declare str_nat.simps [simp del]

subsection \<open>One iteration of the loop\<close>

lemma deepcopy_simps:
  "heap (fst (deepcopy st a)) = heap st @ [heap st ! a]"
  "snd (deepcopy st a) = length (heap st)"
  "samples (fst (deepcopy st a)) = samples st"
  "stdout (fst (deepcopy st a)) = stdout st"
  "data_pkl (fst (deepcopy st a)) = data_pkl st"
  "runpp_calls (fst (deepcopy st a)) = runpp_calls st"
  by (simp_all add: deepcopy_def)

lemma sample_body_eq:
  "sample_body solver self r net v_nominal theta_nominal k st =
     (let vs = v_ill self r v_nominal k;
          thetas = theta_ill self r theta_nominal k;
          res = solver (heap st ! base_net self) (ill_opts self vs thetas);
          st2 = st\<lparr>heap := heap st @ [fst res],
                   runpp_calls := runpp_calls st @ [length (heap st)]\<rparr>
      in if snd res then
           (case compute_residual (res_vm_pu (fst res)) (res_va_degree (fst res))
                   (ppc_Ybus (fst res)) (ppc_Sbus (fst res)) of
              Inl e \<Rightarrow> (st2, Some e)
            | Inr resd \<Rightarrow>
                (st2\<lparr>samples := samples st @
                    [sample_record (ppc_Sbus (fst res)) (ppc_Ybus (fst res)) vs thetas
                       (ppc_iterations ((heap st @ [fst res]) ! net))
                       (res_vm_pu (fst res)) (res_va_degree (fst res)) resd]\<rparr>, None))
         else (st2\<lparr>stdout := stdout st @ [not_converged_msg k]\<rparr>, None))"
proof -
  obtain net' ok where res:
    "solver (heap st ! base_net self)
       (ill_opts self (v_ill self r v_nominal k) (theta_ill self r theta_nominal k)) = (net', ok)"
    by (cases "solver (heap st ! base_net self)
       (ill_opts self (v_ill self r v_nominal k) (theta_ill self r theta_nominal k))")
  show ?thesis
  proof (cases ok)
    case False
    with res show ?thesis
      by (simp add: sample_body_def deepcopy_def runpp_def Let_def)
  next
    case True
    with res show ?thesis
      by (cases "compute_residual (res_vm_pu net') (res_va_degree net') (ppc_Ybus net') (ppc_Sbus net')")
         (simp_all add: sample_body_def deepcopy_def runpp_def Let_def)
  qed
qed

lemma sample_body_cases:
  assumes "sample_body solver self r net v_nominal theta_nominal k st = (st', e)"
    and b: "base_net self < length (heap st)" and n: "net < length (heap st)"
  shows "\<exists>x. heap st' = heap st @ [x]"
    and "runpp_calls st' = runpp_calls st @ [length (heap st)]"
    and "data_pkl st' = data_pkl st"
    and "(\<not> draw_converges solver self r (heap st ! base_net self) v_nominal theta_nominal k \<and>
          e = None \<and> samples st' = samples st \<and> stdout st' = stdout st @ [not_converged_msg k]) \<or>
         (draw_converges solver self r (heap st ! base_net self) v_nominal theta_nominal k \<and>
          stdout st' = stdout st \<and>
          ((\<exists>x. e = Some x \<and> samples st' = samples st) \<or>
           (\<exists>s. e = None \<and> samples st' = samples st @ [s] \<and>
              converged_record solver self r (heap st ! base_net self) v_nominal theta_nominal
                (ppc_iterations (heap st ! net)) k s)))"
proof -
  define res where "res = solver (heap st ! base_net self)
     (ill_opts self (v_ill self r v_nominal k) (theta_ill self r theta_nominal k))"
  define cr where "cr = compute_residual (res_vm_pu (fst res)) (res_va_degree (fst res))
                   (ppc_Ybus (fst res)) (ppc_Sbus (fst res))"
  have it: "ppc_iterations ((heap st @ [fst res]) ! net) = ppc_iterations (heap st ! net)"
    using n by (simp add: nth_append)
  note eq = assms(1) [unfolded sample_body_eq Let_def, folded res_def, folded cr_def, unfolded it]
  have dc: "draw_converges solver self r (heap st ! base_net self) v_nominal theta_nominal k = snd res"
    by (simp add: draw_converges_def res_def)
  show "\<exists>x. heap st' = heap st @ [x]"
    using eq by (cases "snd res"; cases cr) auto
  show "runpp_calls st' = runpp_calls st @ [length (heap st)]"
    using eq by (cases "snd res"; cases cr) auto
  show "data_pkl st' = data_pkl st"
    using eq by (cases "snd res"; cases cr) auto
  show "(\<not> draw_converges solver self r (heap st ! base_net self) v_nominal theta_nominal k \<and>
          e = None \<and> samples st' = samples st \<and> stdout st' = stdout st @ [not_converged_msg k]) \<or>
         (draw_converges solver self r (heap st ! base_net self) v_nominal theta_nominal k \<and>
          stdout st' = stdout st \<and>
          ((\<exists>x. e = Some x \<and> samples st' = samples st) \<or>
           (\<exists>s. e = None \<and> samples st' = samples st @ [s] \<and>
              converged_record solver self r (heap st ! base_net self) v_nominal theta_nominal
                (ppc_iterations (heap st ! net)) k s)))"
  proof (cases "snd res")
    case False
    with eq dc show ?thesis by auto
  next
    case True
    show ?thesis
    proof (cases cr)
      case (Inl x)
      with True eq dc show ?thesis by auto
    next
      case (Inr resd)
      then have "converged_record solver self r (heap st ! base_net self) v_nominal theta_nominal
                (ppc_iterations (heap st ! net)) k
                (sample_record (ppc_Sbus (fst res)) (ppc_Ybus (fst res))
                   (v_ill self r v_nominal k) (theta_ill self r theta_nominal k)
                   (ppc_iterations (heap st ! net))
                   (res_vm_pu (fst res)) (res_va_degree (fst res)) resd)"
        using True by (simp add: converged_record_def Let_def res_def [symmetric] cr_def [symmetric])
      with True Inr eq dc show ?thesis by auto
    qed
  qed
qed

subsection \<open>The loop and the whole run\<close>

lemma upt_Suc_shift: "n # [Suc n..<Suc n + m] = [n..<n + Suc m]"
  by (simp add: upt_rec [of n])

lemma sample_loop_run:
  assumes "sample_loop solver self r net v_nominal theta_nominal ks st = (st', e)"
    and "base_net self < length (heap st)" and "net < length (heap st)"
  shows "\<exists>hs new msgs.
      heap st' = heap st @ hs \<and>
      runpp_calls st' = runpp_calls st @ [length (heap st)..<length (heap st) + length hs] \<and>
      samples st' = samples st @ new \<and>
      stdout st' = stdout st @ msgs \<and>
      data_pkl st' = data_pkl st \<and>
      length hs \<le> length ks \<and>
      (\<forall>s\<in>set new. \<exists>k\<in>set ks.
         converged_record solver self r (heap st ! base_net self) v_nominal theta_nominal
           (ppc_iterations (heap st ! net)) k s) \<and>
      (\<forall>m\<in>set msgs. \<exists>k\<in>set ks. m = not_converged_msg k \<and>
         \<not> draw_converges solver self r (heap st ! base_net self) v_nominal theta_nominal k) \<and>
      (e = None \<longrightarrow>
         length hs = length ks \<and>
         length new = length (filter
           (draw_converges solver self r (heap st ! base_net self) v_nominal theta_nominal) ks) \<and>
         length msgs = length (filter
           (\<lambda>k. \<not> draw_converges solver self r (heap st ! base_net self) v_nominal theta_nominal k) ks))"
  using assms
proof (induction ks arbitrary: st)
  case Nil
  then have "st' = st" "e = None" by simp_all
  then show ?case by simp
next
  case (Cons k ks)
  let ?base = "heap st ! base_net self"
  let ?it = "ppc_iterations (heap st ! net)"
  let ?conv = "draw_converges solver self r ?base v_nominal theta_nominal"
  let ?rec = "converged_record solver self r ?base v_nominal theta_nominal ?it"
  obtain st1 e1 where body: "sample_body solver self r net v_nominal theta_nominal k st = (st1, e1)"
    by (cases "sample_body solver self r net v_nominal theta_nominal k st")
  note c = sample_body_cases [OF body Cons.prems(2) Cons.prems(3)]
  from c(1) obtain x where h1: "heap st1 = heap st @ [x]" ..
  have base1: "heap st1 ! base_net self = ?base" and it1: "heap st1 ! net = heap st ! net"
    using h1 Cons.prems(2,3) by (simp_all add: nth_append)
  have lt1: "base_net self < length (heap st1)" "net < length (heap st1)"
    using h1 Cons.prems(2,3) by simp_all
  show ?case
  proof (cases e1)
    case (Some ex)
    with body Cons.prems(1) have fin: "st' = st1" "e = Some ex" by simp_all
    from c(4) Some have s1: "samples st1 = samples st" "stdout st1 = stdout st" by auto
    show ?thesis
      apply (rule exI [of _ "[x]"], rule exI [of _ "[]"], rule exI [of _ "[]"])
      using fin h1 c(2) c(3) s1 by simp
  next
    case None
    with body Cons.prems(1)
    have rest: "sample_loop solver self r net v_nominal theta_nominal ks st1 = (st', e)" by simp
    from Cons.IH [OF rest lt1] obtain hs new msgs where ih:
      "heap st' = heap st1 @ hs"
      "runpp_calls st' = runpp_calls st1 @ [length (heap st1)..<length (heap st1) + length hs]"
      "samples st' = samples st1 @ new"
      "stdout st' = stdout st1 @ msgs"
      "data_pkl st' = data_pkl st1"
      "length hs \<le> length ks"
      "\<forall>s\<in>set new. \<exists>k\<in>set ks. ?rec k s"
      "\<forall>m\<in>set msgs. \<exists>k\<in>set ks. m = not_converged_msg k \<and> \<not> ?conv k"
      "e = None \<longrightarrow> length hs = length ks \<and> length new = length (filter ?conv ks) \<and>
         length msgs = length (filter (\<lambda>k. \<not> ?conv k) ks)"
      unfolding base1 it1 by blast
    have calls: "runpp_calls st' =
        runpp_calls st @ [length (heap st)..<length (heap st) + length (x # hs)]"
      using ih(2) c(2) h1 upt_Suc_shift [of "length (heap st)" "length hs"] by simp
    from c(4) None consider
      (skip) "\<not> ?conv k" "samples st1 = samples st" "stdout st1 = stdout st @ [not_converged_msg k]"
      | (keep) s where "?conv k" "stdout st1 = stdout st" "samples st1 = samples st @ [s]" "?rec k s"
      by auto
    then show ?thesis
    proof cases
      case skip
      show ?thesis
        apply (rule exI [of _ "x # hs"], rule exI [of _ new],
               rule exI [of _ "not_converged_msg k # msgs"])
        using ih(1,3,4,5,6,7,8,9) h1 c(3) calls skip by auto
    next
      case keep
      show ?thesis
        apply (rule exI [of _ "x # hs"], rule exI [of _ "s # new"], rule exI [of _ msgs])
        using ih(1,3,4,5,6,7,8,9) h1 c(3) calls keep by auto
    qed
  qed
qed



lemma generate_samples_eq:
  "generate_samples solver self r st =
     (let res = base_solve solver (heap st ! base_net self);
          st2 = st\<lparr>heap := heap st @ [fst res],
                   runpp_calls := runpp_calls st @ [length (heap st)]\<rparr>
      in if snd res then
           (case sample_loop solver self r (length (heap st)) (res_vm_pu (fst res))
                   (res_va_degree (fst res)) (py_range 0 (num_samples self)) st2 of
              (st3, Some e) \<Rightarrow> (st3, Some e)
            | (st3, None) \<Rightarrow> (st3\<lparr>data_pkl := Some (samples st3)\<rparr>, None))
         else (st2, None))"
proof -
  obtain net' ok where res: "solver (heap st ! base_net self) base_opts = (net', ok)"
    by (cases "solver (heap st ! base_net self) base_opts")
  then show ?thesis
    by (cases ok) (simp_all add: generate_samples_def deepcopy_def runpp_def Let_def base_solve_def)
qed

lemma generate_samples_run:
  assumes gen: "generate_samples solver self r st = (st', e)"
    and b: "base_net self < length (heap st)"
  shows "\<exists>hs new msgs.
      heap st' = heap st @ fst (base_solve solver (heap st ! base_net self)) # hs \<and>
      runpp_calls st' = runpp_calls st @ [length (heap st)..<length (heap st) + Suc (length hs)] \<and>
      samples st' = samples st @ new \<and>
      stdout st' = stdout st @ msgs \<and>
      (\<forall>s\<in>set new. \<exists>k\<in>set (py_range 0 (num_samples self)).
         converged_record solver self r (heap st ! base_net self)
           (res_vm_pu (fst (base_solve solver (heap st ! base_net self))))
           (res_va_degree (fst (base_solve solver (heap st ! base_net self))))
           (ppc_iterations (fst (base_solve solver (heap st ! base_net self)))) k s) \<and>
      (\<forall>m\<in>set msgs. \<exists>k\<in>set (py_range 0 (num_samples self)). m = not_converged_msg k \<and>
         \<not> draw_converges solver self r (heap st ! base_net self)
           (res_vm_pu (fst (base_solve solver (heap st ! base_net self))))
           (res_va_degree (fst (base_solve solver (heap st ! base_net self)))) k) \<and>
      (\<not> snd (base_solve solver (heap st ! base_net self)) \<longrightarrow>
         hs = [] \<and> new = [] \<and> msgs = [] \<and> e = None \<and> data_pkl st' = data_pkl st) \<and>
      (snd (base_solve solver (heap st ! base_net self)) \<and> e = None \<longrightarrow>
         data_pkl st' = Some (samples st') \<and>
         length hs = length (py_range 0 (num_samples self)) \<and>
         length new = length (filter
           (draw_converges solver self r (heap st ! base_net self)
             (res_vm_pu (fst (base_solve solver (heap st ! base_net self))))
             (res_va_degree (fst (base_solve solver (heap st ! base_net self)))))
           (py_range 0 (num_samples self))) \<and>
         length msgs = length (filter
           (\<lambda>k. \<not> draw_converges solver self r (heap st ! base_net self)
             (res_vm_pu (fst (base_solve solver (heap st ! base_net self))))
             (res_va_degree (fst (base_solve solver (heap st ! base_net self)))) k)
           (py_range 0 (num_samples self))))"
proof -
  define base where "base = heap st ! base_net self"
  define res where "res = base_solve solver base"
  define st2 where "st2 = st\<lparr>heap := heap st @ [fst res],
                   runpp_calls := runpp_calls st @ [length (heap st)]\<rparr>"
  define ks where "ks = py_range 0 (num_samples self)"
  note eq = gen [unfolded generate_samples_eq Let_def, folded base_def, folded res_def,
      folded st2_def, folded ks_def]
  have h2: "heap st2 = heap st @ [fst res]"
    and c2: "runpp_calls st2 = runpp_calls st @ [length (heap st)]"
    and s2: "samples st2 = samples st" "stdout st2 = stdout st" "data_pkl st2 = data_pkl st"
    by (simp_all add: st2_def)
  have goal: "\<exists>hs new msgs.
      heap st' = heap st @ fst res # hs \<and>
      runpp_calls st' = runpp_calls st @ [length (heap st)..<length (heap st) + Suc (length hs)] \<and>
      samples st' = samples st @ new \<and>
      stdout st' = stdout st @ msgs \<and>
      (\<forall>s\<in>set new. \<exists>k\<in>set ks.
         converged_record solver self r base (res_vm_pu (fst res)) (res_va_degree (fst res))
           (ppc_iterations (fst res)) k s) \<and>
      (\<forall>m\<in>set msgs. \<exists>k\<in>set ks. m = not_converged_msg k \<and>
         \<not> draw_converges solver self r base (res_vm_pu (fst res)) (res_va_degree (fst res)) k) \<and>
      (\<not> snd res \<longrightarrow> hs = [] \<and> new = [] \<and> msgs = [] \<and> e = None \<and> data_pkl st' = data_pkl st) \<and>
      (snd res \<and> e = None \<longrightarrow>
         data_pkl st' = Some (samples st') \<and>
         length hs = length ks \<and>
         length new = length (filter
           (draw_converges solver self r base (res_vm_pu (fst res)) (res_va_degree (fst res))) ks) \<and>
         length msgs = length (filter
           (\<lambda>k. \<not> draw_converges solver self r base (res_vm_pu (fst res)) (res_va_degree (fst res)) k)
           ks))"
  proof (cases "snd res")
    case False
    with eq have fin: "st' = st2" "e = None" by simp_all
    show ?thesis
      apply (rule exI [of _ "[]"], rule exI [of _ "[]"], rule exI [of _ "[]"])
      using False fin h2 c2 s2 by simp
  next
    case True
    obtain st3 e3 where loop: "sample_loop solver self r (length (heap st)) (res_vm_pu (fst res))
        (res_va_degree (fst res)) ks st2 = (st3, e3)"
      by (cases "sample_loop solver self r (length (heap st)) (res_vm_pu (fst res))
        (res_va_degree (fst res)) ks st2")
    have b2: "base_net self < length (heap st2)" and n2: "length (heap st) < length (heap st2)"
      using b by (simp_all add: h2)
    have base2: "heap st2 ! base_net self = base" and net2: "heap st2 ! length (heap st) = fst res"
      using b by (simp_all add: h2 nth_append base_def)
    from sample_loop_run [OF loop b2 n2] obtain hs new msgs where run:
      "heap st3 = heap st2 @ hs"
      "runpp_calls st3 = runpp_calls st2 @ [length (heap st2)..<length (heap st2) + length hs]"
      "samples st3 = samples st2 @ new"
      "stdout st3 = stdout st2 @ msgs"
      "data_pkl st3 = data_pkl st2"
      "length hs \<le> length ks"
      "\<forall>s\<in>set new. \<exists>k\<in>set ks.
         converged_record solver self r base (res_vm_pu (fst res)) (res_va_degree (fst res))
           (ppc_iterations (fst res)) k s"
      "\<forall>m\<in>set msgs. \<exists>k\<in>set ks. m = not_converged_msg k \<and>
         \<not> draw_converges solver self r base (res_vm_pu (fst res)) (res_va_degree (fst res)) k"
      "e3 = None \<longrightarrow>
         length hs = length ks \<and>
         length new = length (filter
           (draw_converges solver self r base (res_vm_pu (fst res)) (res_va_degree (fst res))) ks) \<and>
         length msgs = length (filter
           (\<lambda>k. \<not> draw_converges solver self r base (res_vm_pu (fst res)) (res_va_degree (fst res)) k)
           ks)"
      unfolding base2 net2 by blast
    from eq True loop have fin0: "(st', e) = (case e3 of Some x \<Rightarrow> (st3, Some x)
        | None \<Rightarrow> (st3\<lparr>data_pkl := Some (samples st3)\<rparr>, None))"
      by (simp split: option.splits)
    have fin: "e = e3" "heap st' = heap st3" "runpp_calls st' = runpp_calls st3"
      "samples st' = samples st3" "stdout st' = stdout st3"
      using fin0 by (cases e3; simp)+
    have pk: "e = None \<longrightarrow> data_pkl st' = Some (samples st')"
      using fin0 by (cases e3; simp)
    have heap': "heap st' = heap st @ fst res # hs"
      using fin(2) run(1) h2 by simp
    have calls: "runpp_calls st' =
        runpp_calls st @ [length (heap st)..<length (heap st) + Suc (length hs)]"
      using run(2) fin(3) c2 h2 upt_Suc_shift [of "length (heap st)" "length hs"] by simp
    have smp: "samples st' = samples st @ new" using fin(4) run(3) s2 by simp
    have out: "stdout st' = stdout st @ msgs" using fin(5) run(4) s2 by simp
    have cnt: "snd res \<and> e = None \<longrightarrow>
         data_pkl st' = Some (samples st') \<and>
         length hs = length ks \<and>
         length new = length (filter
           (draw_converges solver self r base (res_vm_pu (fst res)) (res_va_degree (fst res))) ks) \<and>
         length msgs = length (filter
           (\<lambda>k. \<not> draw_converges solver self r base (res_vm_pu (fst res)) (res_va_degree (fst res)) k)
           ks)"
      using run(9) fin(1) pk by blast
    have nb: "\<not> snd res \<longrightarrow> hs = [] \<and> new = [] \<and> msgs = [] \<and> e = None \<and> data_pkl st' = data_pkl st"
      using True by simp
    from heap' calls smp out run(7) run(8) nb cnt show ?thesis by blast
  qed
  then show ?thesis unfolding ks_def res_def base_def .
qed


subsection \<open>The two-bus example, evaluated\<close>

lemma py_range_0_2: "py_range 0 2 = [0, 1]"
  by code_simp

lemma two_bus_residual:
  "compute_residual [1, 1 / 2] [0, 0] [[1, - 1], [- 1, 1]] [1 / 2, - (1 / 4)] = Inr [0]"
proof -
  have "residual_shapes [1, 1 / 2] [0, 0] [[1, - 1], [- 1, 1]] [1 / 2, - (1 / 4)]"
    by (simp add: residual_shapes_def)
  from compute_residual_unfold [OF this] show ?thesis
    by (simp add: np_deg2rad_def np_conj_def)
qed

lemma two_bus_v_ill:
  "v_ill two_bus_dataset two_bus_rng [1, 1 / 2] 0 = [11 / 10, 3 / 5]"
  "v_ill two_bus_dataset two_bus_rng [1, 1 / 2] 1 = [9 / 10, 2 / 5]"
  "theta_ill two_bus_dataset two_bus_rng [0, 0] k = [5, 5]"
  by (simp_all add: v_ill_def theta_ill_def np_add_def np_random_uniform_def two_bus_rng_def
        upt_rec [of 0] upt_rec [of 1] upt_rec [of 2] numeral_2_eq_2)

lemma not_converged_msg_1:
  "not_converged_msg 1 = ''Sample 1: Ill-conditioned case did not converge!''"
  by (simp add: not_converged_msg_def py_str_def str_nat.simps)

lemma two_bus_dataset_simps:
  "base_net two_bus_dataset = 1" "num_samples two_bus_dataset = 2"
  "v_perturb two_bus_dataset = 3 / 20" "theta_perturb two_bus_dataset = 30"
  by (simp_all add: two_bus_dataset_def)

lemma two_bus_base_solve:
  "base_solve two_bus_solver two_bus_net = (two_bus_solved 3 two_bus_net, True)"
  by (simp add: base_solve_def base_opts_def two_bus_solver_def)

lemma two_bus_perturbed:
  "two_bus_solver two_bus_net (ill_opts two_bus_dataset [11 / 10, 3 / 5] [5, 5])
     = (two_bus_solved 7 two_bus_net, True)"
  "two_bus_solver two_bus_net (ill_opts two_bus_dataset [9 / 10, 2 / 5] [5, 5])
     = (two_bus_net, False)"
  by (simp_all add: ill_opts_def two_bus_solver_def)

lemma two_bus_solved_simps:
  "res_vm_pu (two_bus_solved its net) = [1, 1 / 2]"
  "res_va_degree (two_bus_solved its net) = [0, 0]"
  "ppc_iterations (two_bus_solved its net) = its"
  "ppc_Ybus (two_bus_solved its net) = [[1, - 1], [- 1, 1]]"
  "ppc_Sbus (two_bus_solved its net) = [1 / 2, - (1 / 4)]"
  by (simp_all add: two_bus_solved_def)

lemma two_bus_run:
  "generate_samples two_bus_solver two_bus_dataset two_bus_rng two_bus_state = (two_bus_final, None)"
  by (simp add: generate_samples_eq sample_body_eq Let_def two_bus_state_def
      two_bus_dataset_simps py_range_0_2 two_bus_base_solve two_bus_perturbed
      two_bus_solved_simps two_bus_v_ill two_bus_residual two_bus_final_def
      two_bus_sample_def not_converged_msg_1)

lemma two_bus_init:
  "PowerFlowDataset_init two_bus_solver two_bus_rng 0 2 50 (1 / 100000) (3 / 20) 30 two_bus_initial
     = (two_bus_dataset, two_bus_final, None)"
proof -
  have st: "fst (deepcopy two_bus_initial 0)\<lparr>samples := []\<rparr> = two_bus_state"
    by (simp add: deepcopy_def two_bus_initial_def two_bus_state_def)
  have d: "\<lparr>base_net = snd (deepcopy two_bus_initial 0), num_samples = 2, max_iteration_attr = 50,
            tolerance_mva_attr = 1 / 100000, v_perturb = 3 / 20, theta_perturb = 30\<rparr>
           = two_bus_dataset"
    by (simp add: deepcopy_def two_bus_initial_def two_bus_dataset_def)
  show ?thesis
    unfolding PowerFlowDataset_init_def Let_def split_beta d st two_bus_run ..
qed


subsection \<open>What a retained record holds\<close>

lemma dict_getitem_sample_record:
  "dict_getitem (sample_record S Ybus vs thetas it V_mag V_ang resd) ''iterations'' = Inr (IntScalar it)"
  "dict_getitem (sample_record S Ybus vs thetas it V_mag V_ang resd) ''resd_real'' = Inr (FloatArray (map Re resd))"
  "dict_getitem (sample_record S Ybus vs thetas it V_mag V_ang resd) ''resd_imag'' = Inr (FloatArray (map Im resd))"
  "dict_getitem (sample_record S Ybus vs thetas it V_mag V_ang resd) ''V_pred'' = Inr (FloatArray V_mag)"
  "dict_getitem (sample_record S Ybus vs thetas it V_mag V_ang resd) ''Phi_pred'' = Inr (FloatArray V_ang)"
  "dict_getitem (sample_record S Ybus vs thetas it V_mag V_ang resd) ''V_init'' = Inr (FloatArray vs)"
  "dict_getitem (sample_record S Ybus vs thetas it V_mag V_ang resd) ''theta_init'' = Inr (FloatArray thetas)"
  by (simp_all add: dict_getitem_def sample_record_def)

lemma py_range_0_iff: "k \<in> set (py_range 0 n) \<longleftrightarrow> 0 \<le> k \<and> k < n"
  by (auto simp add: set_py_range)

lemma converged_record_fields:
  assumes "converged_record solver self r base
      (res_vm_pu (fst (base_solve solver base))) (res_va_degree (fst (base_solve solver base)))
      (ppc_iterations (fst (base_solve solver base))) k s"
  shows "\<exists>resd.
      snd (perturbed_solve solver self r base k) \<and>
      compute_residual
         (res_vm_pu (fst (perturbed_solve solver self r base k)))
         (res_va_degree (fst (perturbed_solve solver self r base k)))
         (ppc_Ybus (fst (perturbed_solve solver self r base k)))
         (ppc_Sbus (fst (perturbed_solve solver self r base k))) = Inr resd \<and>
      dict_getitem s ''iterations'' = Inr (IntScalar (ppc_iterations (fst (base_solve solver base)))) \<and>
      dict_getitem s ''resd_real'' = Inr (FloatArray (map Re resd)) \<and>
      dict_getitem s ''resd_imag'' = Inr (FloatArray (map Im resd)) \<and>
      dict_getitem s ''V_pred'' =
        Inr (FloatArray (res_vm_pu (fst (perturbed_solve solver self r base k)))) \<and>
      dict_getitem s ''Phi_pred'' =
        Inr (FloatArray (res_va_degree (fst (perturbed_solve solver self r base k)))) \<and>
      dict_getitem s ''V_init'' =
        Inr (FloatArray (v_ill self r (res_vm_pu (fst (base_solve solver base))) k)) \<and>
      dict_getitem s ''theta_init'' =
        Inr (FloatArray (theta_ill self r (res_va_degree (fst (base_solve solver base))) k))"
proof -
  define p where "p = perturbed_solve solver self r base k"
  define cr where "cr = compute_residual (res_vm_pu (fst p)) (res_va_degree (fst p))
     (ppc_Ybus (fst p)) (ppc_Sbus (fst p))"
  note a = assms [unfolded converged_record_def Let_def, folded perturbed_solve_def,
      folded p_def, folded cr_def]
  from a obtain resd where cr: "cr = Inr resd" by (cases cr) auto
  with a have conv: "snd p"
    and s: "s = sample_record (ppc_Sbus (fst p)) (ppc_Ybus (fst p))
        (v_ill self r (res_vm_pu (fst (base_solve solver base))) k)
        (theta_ill self r (res_va_degree (fst (base_solve solver base))) k)
        (ppc_iterations (fst (base_solve solver base)))
        (res_vm_pu (fst p)) (res_va_degree (fst p)) resd"
    by simp_all
  show ?thesis
    unfolding p_def [symmetric] cr_def [symmetric]
    by (rule exI [of _ resd]) (simp add: conv cr s dict_getitem_sample_record)
qed

text \<open>
  Claim C3: every record that \<open>generate_samples\<close> appends comes from a draw \<open>k\<close> whose
  perturbed solve converged. Its \<open>iterations\<close> field is the iteration count of the
  base-case solve, read from the base network's result, not that of the perturbed solve.
  Its \<open>resd_real\<close> and \<open>resd_imag\<close> fields are the real and imaginary parts of the residual
  computed from the perturbed solve's result (the solution stored under \<open>V_pred\<close> and
  \<open>Phi_pred\<close>), not from the perturbed initial guess stored under \<open>V_init\<close> and
  \<open>theta_init\<close>.
\<close>

theorem generate_samples_iterations_and_residual:
  assumes "generate_samples solver self r st = (st', e)"
    and "base_net self < length (heap st)"
  shows "\<exists>new. samples st' = samples st @ new \<and>
    (\<forall>s\<in>set new. \<exists>k resd.
       0 \<le> k \<and> k < num_samples self \<and>
       snd (perturbed_solve solver self r (heap st ! base_net self) k) \<and>
       compute_residual
         (res_vm_pu (fst (perturbed_solve solver self r (heap st ! base_net self) k)))
         (res_va_degree (fst (perturbed_solve solver self r (heap st ! base_net self) k)))
         (ppc_Ybus (fst (perturbed_solve solver self r (heap st ! base_net self) k)))
         (ppc_Sbus (fst (perturbed_solve solver self r (heap st ! base_net self) k))) = Inr resd \<and>
       dict_getitem s ''iterations'' =
         Inr (IntScalar (ppc_iterations (fst (base_solve solver (heap st ! base_net self))))) \<and>
       dict_getitem s ''resd_real'' = Inr (FloatArray (map Re resd)) \<and>
       dict_getitem s ''resd_imag'' = Inr (FloatArray (map Im resd)) \<and>
       dict_getitem s ''V_pred'' =
         Inr (FloatArray (res_vm_pu (fst (perturbed_solve solver self r (heap st ! base_net self) k)))) \<and>
       dict_getitem s ''Phi_pred'' =
         Inr (FloatArray (res_va_degree (fst (perturbed_solve solver self r (heap st ! base_net self) k)))) \<and>
       dict_getitem s ''V_init'' =
         Inr (FloatArray (v_ill self r
           (res_vm_pu (fst (base_solve solver (heap st ! base_net self)))) k)) \<and>
       dict_getitem s ''theta_init'' =
         Inr (FloatArray (theta_ill self r
           (res_va_degree (fst (base_solve solver (heap st ! base_net self)))) k)))"
proof -
  define base where "base = heap st ! base_net self"
  from generate_samples_run [OF assms, folded base_def] obtain new where
    smp: "samples st' = samples st @ new"
    and recs: "\<forall>s\<in>set new. \<exists>k\<in>set (py_range 0 (num_samples self)).
         converged_record solver self r base
           (res_vm_pu (fst (base_solve solver base)))
           (res_va_degree (fst (base_solve solver base)))
           (ppc_iterations (fst (base_solve solver base))) k s"
    by blast
  have "\<exists>k resd.
       0 \<le> k \<and> k < num_samples self \<and>
       snd (perturbed_solve solver self r base k) \<and>
       compute_residual
         (res_vm_pu (fst (perturbed_solve solver self r base k)))
         (res_va_degree (fst (perturbed_solve solver self r base k)))
         (ppc_Ybus (fst (perturbed_solve solver self r base k)))
         (ppc_Sbus (fst (perturbed_solve solver self r base k))) = Inr resd \<and>
       dict_getitem s ''iterations'' =
         Inr (IntScalar (ppc_iterations (fst (base_solve solver base)))) \<and>
       dict_getitem s ''resd_real'' = Inr (FloatArray (map Re resd)) \<and>
       dict_getitem s ''resd_imag'' = Inr (FloatArray (map Im resd)) \<and>
       dict_getitem s ''V_pred'' =
         Inr (FloatArray (res_vm_pu (fst (perturbed_solve solver self r base k)))) \<and>
       dict_getitem s ''Phi_pred'' =
         Inr (FloatArray (res_va_degree (fst (perturbed_solve solver self r base k)))) \<and>
       dict_getitem s ''V_init'' =
         Inr (FloatArray (v_ill self r (res_vm_pu (fst (base_solve solver base))) k)) \<and>
       dict_getitem s ''theta_init'' =
         Inr (FloatArray (theta_ill self r (res_va_degree (fst (base_solve solver base))) k))"
    if "s \<in> set new" for s
  proof -
    from recs that obtain k where k: "k \<in> set (py_range 0 (num_samples self))"
      and rec: "converged_record solver self r base
           (res_vm_pu (fst (base_solve solver base)))
           (res_va_degree (fst (base_solve solver base)))
           (ppc_iterations (fst (base_solve solver base))) k s"
      by blast
    from k have "0 \<le> k \<and> k < num_samples self" by (simp add: py_range_0_iff)
    with converged_record_fields [OF rec] show ?thesis by blast
  qed
  with smp show ?thesis unfolding base_def by blast
qed

theorem generate_samples_iterations_and_residual_witness:
  "generate_samples two_bus_solver two_bus_dataset two_bus_rng two_bus_state = (two_bus_final, None) \<and>
   samples two_bus_final = [two_bus_sample] \<and>
   dict_getitem two_bus_sample ''iterations'' = Inr (IntScalar 3) \<and>
   ppc_iterations (fst (perturbed_solve two_bus_solver two_bus_dataset two_bus_rng two_bus_net 0)) = 7 \<and>
   dict_getitem two_bus_sample ''resd_real'' = Inr (FloatArray [0]) \<and>
   dict_getitem two_bus_sample ''V_pred'' = Inr (FloatArray [1, 1 / 2]) \<and>
   dict_getitem two_bus_sample ''V_init'' = Inr (FloatArray [11 / 10, 3 / 5])"
proof -
  have b: "base_net two_bus_dataset < length (heap two_bus_state)"
    by (simp add: two_bus_dataset_simps two_bus_state_def)
  have base: "heap two_bus_state ! base_net two_bus_dataset = two_bus_net"
    by (simp add: two_bus_dataset_simps two_bus_state_def)
  have smp: "samples two_bus_state = []" "samples two_bus_final = [two_bus_sample]"
    by (simp_all add: two_bus_state_def two_bus_final_def)
  from generate_samples_iterations_and_residual [OF two_bus_run b, unfolded base smp]
  obtain k resd where
    "dict_getitem two_bus_sample ''iterations'' =
       Inr (IntScalar (ppc_iterations (fst (base_solve two_bus_solver two_bus_net))))"
    by auto
  then have it: "dict_getitem two_bus_sample ''iterations'' = Inr (IntScalar 3)"
    by (simp add: two_bus_base_solve two_bus_solved_simps)
  have p: "ppc_iterations (fst (perturbed_solve two_bus_solver two_bus_dataset two_bus_rng two_bus_net 0)) = 7"
    by (simp add: perturbed_solve_def two_bus_base_solve two_bus_solved_simps two_bus_v_ill
        two_bus_perturbed)
  have rest: "dict_getitem two_bus_sample ''resd_real'' = Inr (FloatArray [0])"
    "dict_getitem two_bus_sample ''V_pred'' = Inr (FloatArray [1, 1 / 2])"
    "dict_getitem two_bus_sample ''V_init'' = Inr (FloatArray [11 / 10, 3 / 5])"
    by (simp_all add: two_bus_sample_def dict_getitem_sample_record)
  from two_bus_run smp(2) it p rest show ?thesis by simp
qed

subsection \<open>Retained and discarded draws\<close>



subsection \<open>The diagnostic names the sample\<close>

lemma digit_inj:
  assumes "a < 10" "b < 10" "''0123456789'' ! a = ''0123456789'' ! b"
  shows "a = b"
proof -
  have d: "distinct ''0123456789''" by simp
  from assms(1,2) have "a < length ''0123456789''" "b < length ''0123456789''" by simp_all
  with d assms(3) show ?thesis by (simp only: nth_eq_iff_index_eq)
qed

lemma digit_in: "a < 10 \<Longrightarrow> ''0123456789'' ! a \<in> set ''0123456789''"
  by (rule nth_mem) simp

lemma str_nat_digits: "set (str_nat n) \<subseteq> set ''0123456789''"
proof (induction n rule: str_nat.induct)
  case (1 n)
  show ?case
  proof (cases "n < 10")
    case True
    then show ?thesis using digit_in [of n] by (subst str_nat.simps) simp
  next
    case False
    have "n mod 10 < 10" by simp
    from digit_in [OF this] 1 [OF False] False show ?thesis
      by (subst str_nat.simps) simp
  qed
qed

lemma str_nat_nonempty: "str_nat n \<noteq> []"
  by (subst str_nat.simps) simp

lemma str_nat_inj: "str_nat n = str_nat m \<Longrightarrow> n = m"
proof (induction n arbitrary: m rule: str_nat.induct)
  case (1 n)
  show ?case
  proof (cases "n < 10")
    case n: True
    show ?thesis
    proof (cases "m < 10")
      case True
      with n "1.prems" show ?thesis
        using digit_inj [of n m] by (simp add: str_nat.simps [of n] str_nat.simps [of m])
    next
      case False
      with n "1.prems" str_nat_nonempty [of "m div 10"] show ?thesis
        by (simp add: str_nat.simps [of n] str_nat.simps [of m])
    qed
  next
    case n: False
    show ?thesis
    proof (cases "m < 10")
      case True
      with n "1.prems" str_nat_nonempty [of "n div 10"] show ?thesis
        by (simp add: str_nat.simps [of n] str_nat.simps [of m])
    next
      case False
      with n "1.prems" have eq: "str_nat (n div 10) = str_nat (m div 10)"
        and d: "''0123456789'' ! (n mod 10) = ''0123456789'' ! (m mod 10)"
        by (simp_all add: str_nat.simps [of n] str_nat.simps [of m])
      from "1.IH" [OF n eq] have q: "n div 10 = m div 10" .
      have "n mod 10 = m mod 10" using d by (intro digit_inj) simp_all
      with q show ?thesis by (metis div_mult_mod_eq)
    qed
  qed
qed

lemma py_str_inj: "py_str i = py_str j \<Longrightarrow> i = j"
proof -
  assume eq: "py_str i = py_str j"
  have nd: "CHR ''-'' \<notin> set (str_nat n)" for n
    using str_nat_digits [of n] by auto
  have hd: "str_nat n \<noteq> CHR ''-'' # xs" for n xs
    using nd [of n] by (metis list.set_intros(1))
  show ?thesis
  proof (cases "i < 0"; cases "j < 0")
    assume "i < 0" "j < 0"
    with eq have "nat (- i) = nat (- j)" by (simp add: py_str_def str_nat_inj)
    with \<open>i < 0\<close> \<open>j < 0\<close> show ?thesis by simp
  next
    assume "i < 0" "\<not> j < 0"
    with eq hd [of "nat j"] show ?thesis by (simp add: py_str_def) metis
  next
    assume "\<not> i < 0" "j < 0"
    with eq hd [of "nat i"] show ?thesis by (simp add: py_str_def)
  next
    assume "\<not> i < 0" "\<not> j < 0"
    with eq have "nat i = nat j" by (simp add: py_str_def str_nat_inj)
    with \<open>\<not> i < 0\<close> \<open>\<not> j < 0\<close> show ?thesis by simp
  qed
qed

lemma not_converged_msg_inj: "not_converged_msg j = not_converged_msg k \<Longrightarrow> j = k"
  by (simp add: not_converged_msg_def py_str_inj)

text \<open>
  Claim C5: on a draw whose solve does not converge, the loop body raises nothing, appends
  no sample, prints one diagnostic that determines the sample index, and leaves the pickled
  data and every network object that existed before the draw as they were; the solver is
  called once, on the fresh copy (no retry); and the loop goes on with the next draw.
\<close>

theorem sample_body_not_converged:
  assumes "\<not> draw_converges solver self r (heap st ! base_net self) v_nominal theta_nominal k"
  shows "snd (sample_body solver self r net v_nominal theta_nominal k st) = None \<and>
    samples (fst (sample_body solver self r net v_nominal theta_nominal k st)) = samples st \<and>
    stdout (fst (sample_body solver self r net v_nominal theta_nominal k st))
      = stdout st @ [not_converged_msg k] \<and>
    (\<forall>j. not_converged_msg j = not_converged_msg k \<longrightarrow> j = k) \<and>
    data_pkl (fst (sample_body solver self r net v_nominal theta_nominal k st)) = data_pkl st \<and>
    take (length (heap st)) (heap (fst (sample_body solver self r net v_nominal theta_nominal k st)))
      = heap st \<and>
    runpp_calls (fst (sample_body solver self r net v_nominal theta_nominal k st))
      = runpp_calls st @ [length (heap st)] \<and>
    sample_loop solver self r net v_nominal theta_nominal (k # ks) st
      = sample_loop solver self r net v_nominal theta_nominal ks
          (fst (sample_body solver self r net v_nominal theta_nominal k st))"
proof -
  define res where "res = solver (heap st ! base_net self)
     (ill_opts self (v_ill self r v_nominal k) (theta_ill self r theta_nominal k))"
  from assms have nc: "\<not> snd res" by (simp add: draw_converges_def res_def)
  have body: "sample_body solver self r net v_nominal theta_nominal k st =
      (st\<lparr>heap := heap st @ [fst res], runpp_calls := runpp_calls st @ [length (heap st)],
          stdout := stdout st @ [not_converged_msg k]\<rparr>, None)"
    using nc by (simp add: sample_body_eq Let_def res_def [symmetric])
  have inj: "\<forall>j. not_converged_msg j = not_converged_msg k \<longrightarrow> j = k"
    using not_converged_msg_inj by blast
  show ?thesis using inj by (simp add: body)
qed

theorem sample_body_not_converged_witness:
  "\<not> draw_converges two_bus_solver two_bus_dataset two_bus_rng
       (heap two_bus_state ! base_net two_bus_dataset) [1, 1 / 2] [0, 0] 1 \<and>
   snd (sample_body two_bus_solver two_bus_dataset two_bus_rng 0 [1, 1 / 2] [0, 0] 1 two_bus_state)
     = None \<and>
   samples (fst (sample_body two_bus_solver two_bus_dataset two_bus_rng 0 [1, 1 / 2] [0, 0] 1
     two_bus_state)) = [] \<and>
   stdout (fst (sample_body two_bus_solver two_bus_dataset two_bus_rng 0 [1, 1 / 2] [0, 0] 1
     two_bus_state)) = [''Sample 1: Ill-conditioned case did not converge!'']"
proof -
  have nc: "\<not> draw_converges two_bus_solver two_bus_dataset two_bus_rng
       (heap two_bus_state ! base_net two_bus_dataset) [1, 1 / 2] [0, 0] 1"
    by (simp add: draw_converges_def two_bus_dataset_simps two_bus_state_def two_bus_v_ill
        two_bus_perturbed)
  have s: "samples two_bus_state = []" "stdout two_bus_state = []"
    by (simp_all add: two_bus_state_def)
  from sample_body_not_converged [OF nc, of 0] nc show ?thesis
    by (simp add: s not_converged_msg_1)
qed

subsection \<open>The perturbed initial guess\<close>




subsection \<open>The base network is not touched\<close>

lemma sample_loop_heap:
  assumes "base_net self < length (heap s1)" and "net < length (heap s1)"
  shows "take (length (heap s1))
           (heap (fst (sample_loop solver self r net v_nominal theta_nominal ks s1))) = heap s1"
    and "heap (fst (sample_loop solver self r net v_nominal theta_nominal ks s1)) ! base_net self
           = heap s1 ! base_net self"
proof -
  obtain s2 e2 where loop: "sample_loop solver self r net v_nominal theta_nominal ks s1 = (s2, e2)"
    by (cases "sample_loop solver self r net v_nominal theta_nominal ks s1")
  from sample_loop_run [OF loop assms] obtain hs where "heap s2 = heap s1 @ hs" by blast
  with loop assms(1)
  show "take (length (heap s1))
           (heap (fst (sample_loop solver self r net v_nominal theta_nominal ks s1))) = heap s1"
    and "heap (fst (sample_loop solver self r net v_nominal theta_nominal ks s1)) ! base_net self
           = heap s1 ! base_net self"
    by (simp_all add: nth_append)
qed

lemma generate_samples_heap:
  assumes "base_net self < length (heap st)"
  shows "take (length (heap st)) (heap (fst (generate_samples solver self r st))) = heap st"
    and "heap (fst (generate_samples solver self r st)) ! base_net self = heap st ! base_net self"
proof -
  obtain st' e where gen: "generate_samples solver self r st = (st', e)"
    by (cases "generate_samples solver self r st")
  from generate_samples_run [OF gen assms] obtain x hs where "heap st' = heap st @ x # hs"
    by blast
  with gen assms
  show "take (length (heap st)) (heap (fst (generate_samples solver self r st))) = heap st"
    and "heap (fst (generate_samples solver self r st)) ! base_net self = heap st ! base_net self"
    by (simp_all add: nth_append)
qed

lemma PowerFlowDataset_init_eq:
  "PowerFlowDataset_init solver r base_network n mi tol vp tp s0 =
     (\<lparr>base_net = length (heap s0), num_samples = n, max_iteration_attr = mi,
       tolerance_mva_attr = tol, v_perturb = vp, theta_perturb = tp\<rparr>,
      generate_samples solver
        \<lparr>base_net = length (heap s0), num_samples = n, max_iteration_attr = mi,
          tolerance_mva_attr = tol, v_perturb = vp, theta_perturb = tp\<rparr> r
        (s0\<lparr>heap := heap s0 @ [heap s0 ! base_network], samples := []\<rparr>))"
  by (simp add: PowerFlowDataset_init_def deepcopy_def Let_def)

lemma PowerFlowDataset_init_heap:
  shows "base_net (fst (PowerFlowDataset_init solver r base_network n mi tol vp tp s0))
           = length (heap s0)"
    and "heap (fst (snd (PowerFlowDataset_init solver r base_network n mi tol vp tp s0)))
           ! length (heap s0) = heap s0 ! base_network"
    and "take (length (heap s0))
           (heap (fst (snd (PowerFlowDataset_init solver r base_network n mi tol vp tp s0))))
           = heap s0"
proof -
  define self where "self = \<lparr>base_net = length (heap s0), num_samples = n, max_iteration_attr = mi,
       tolerance_mva_attr = tol, v_perturb = vp, theta_perturb = tp\<rparr>"
  define s1 where "s1 = s0\<lparr>heap := heap s0 @ [heap s0 ! base_network], samples := []\<rparr>"
  have b: "base_net self < length (heap s1)" by (simp add: self_def s1_def)
  have init: "PowerFlowDataset_init solver r base_network n mi tol vp tp s0 =
      (self, generate_samples solver self r s1)"
    by (simp add: PowerFlowDataset_init_eq self_def s1_def)
  show "base_net (fst (PowerFlowDataset_init solver r base_network n mi tol vp tp s0))
           = length (heap s0)"
    by (simp add: init self_def)
  from generate_samples_heap(2) [OF b, of solver r]
  show "heap (fst (snd (PowerFlowDataset_init solver r base_network n mi tol vp tp s0)))
           ! length (heap s0) = heap s0 ! base_network"
    by (simp add: init) (simp add: self_def s1_def)
  have "take (length (heap s0)) (take (length (heap s1)) (heap (fst (generate_samples solver self r s1))))
      = take (length (heap s0)) (heap s1)"
    using generate_samples_heap(1) [OF b, of solver r] by simp
  then show "take (length (heap s0))
           (heap (fst (snd (PowerFlowDataset_init solver r base_network n mi tol vp tp s0))))
           = heap s0"
    by (simp add: init) (simp add: s1_def min_def)
qed

text \<open>
  Claim C7: \<open>generate_samples\<close> leaves the stored base network, and every other network
  object that existed before the call, as it was. Every solver call, the base-case solve
  included, works on an object created during the call, each on its own, and never on the
  base network; the same holds after any number of iterations of the loop. The base network
  itself is a copy that the constructor makes of its argument, which stays untouched too.
\<close>

theorem generate_samples_base_net_unchanged:
  assumes "generate_samples solver self r st = (st', e)"
    and "base_net self < length (heap st)"
  shows "heap st' ! base_net self = heap st ! base_net self \<and>
    take (length (heap st)) (heap st') = heap st \<and>
    (\<exists>cs. runpp_calls st' = runpp_calls st @ cs \<and> distinct cs \<and> cs \<noteq> [] \<and>
       (\<forall>a\<in>set cs. length (heap st) \<le> a \<and> a < length (heap st') \<and> a \<noteq> base_net self) \<and>
       length (heap st') = length (heap st) + length cs) \<and>
    (\<forall>net v_nominal theta_nominal ks s1.
       base_net self < length (heap s1) \<and> net < length (heap s1) \<longrightarrow>
       heap (fst (sample_loop solver self r net v_nominal theta_nominal ks s1)) ! base_net self
         = heap s1 ! base_net self) \<and>
    (\<forall>base_network n mi tol vp tp s0.
       base_net (fst (PowerFlowDataset_init solver r base_network n mi tol vp tp s0))
         = length (heap s0) \<and>
       heap (fst (snd (PowerFlowDataset_init solver r base_network n mi tol vp tp s0)))
         ! length (heap s0) = heap s0 ! base_network \<and>
       take (length (heap s0))
         (heap (fst (snd (PowerFlowDataset_init solver r base_network n mi tol vp tp s0))))
         = heap s0)"
proof -
  from generate_samples_run [OF assms] obtain x hs where
    h: "heap st' = heap st @ x # hs"
    and c: "runpp_calls st' = runpp_calls st @ [length (heap st)..<length (heap st) + Suc (length hs)]"
    by blast
  have a: "heap st' ! base_net self = heap st ! base_net self"
    and b: "take (length (heap st)) (heap st') = heap st"
    using h assms(2) by (simp_all add: nth_append)
  have cs: "\<exists>cs. runpp_calls st' = runpp_calls st @ cs \<and> distinct cs \<and> cs \<noteq> [] \<and>
       (\<forall>a\<in>set cs. length (heap st) \<le> a \<and> a < length (heap st') \<and> a \<noteq> base_net self) \<and>
       length (heap st') = length (heap st) + length cs"
    apply (rule exI [of _ "[length (heap st)..<length (heap st) + Suc (length hs)]"])
    using c h assms(2) by auto
  have loop: "\<forall>net v_nominal theta_nominal ks s1.
       base_net self < length (heap s1) \<and> net < length (heap s1) \<longrightarrow>
       heap (fst (sample_loop solver self r net v_nominal theta_nominal ks s1)) ! base_net self
         = heap s1 ! base_net self"
    using sample_loop_heap(2) by blast
  have init: "\<forall>base_network n mi tol vp tp s0.
       base_net (fst (PowerFlowDataset_init solver r base_network n mi tol vp tp s0))
         = length (heap s0) \<and>
       heap (fst (snd (PowerFlowDataset_init solver r base_network n mi tol vp tp s0)))
         ! length (heap s0) = heap s0 ! base_network \<and>
       take (length (heap s0))
         (heap (fst (snd (PowerFlowDataset_init solver r base_network n mi tol vp tp s0))))
         = heap s0"
    by (intro allI conjI) (rule PowerFlowDataset_init_heap)+
  from a b cs loop init show ?thesis by blast
qed

theorem generate_samples_base_net_unchanged_witness:
  "generate_samples two_bus_solver two_bus_dataset two_bus_rng two_bus_state = (two_bus_final, None) \<and>
   base_net two_bus_dataset < length (heap two_bus_state) \<and>
   heap two_bus_final ! base_net two_bus_dataset = two_bus_net \<and>
   heap two_bus_state ! base_net two_bus_dataset = two_bus_net \<and>
   take (length (heap two_bus_state)) (heap two_bus_final) = heap two_bus_state \<and>
   runpp_calls two_bus_final = [2, 3, 4]"
proof -
  have b: "base_net two_bus_dataset < length (heap two_bus_state)"
    by (simp add: two_bus_dataset_simps two_bus_state_def)
  have base: "heap two_bus_state ! base_net two_bus_dataset = two_bus_net"
    by (simp add: two_bus_dataset_simps two_bus_state_def)
  from generate_samples_base_net_unchanged [OF two_bus_run b]
  have "heap two_bus_final ! base_net two_bus_dataset = heap two_bus_state ! base_net two_bus_dataset"
    and "take (length (heap two_bus_state)) (heap two_bus_final) = heap two_bus_state"
    by blast+
  moreover have "runpp_calls two_bus_final = [2, 3, 4]" by (simp add: two_bus_final_def)
  ultimately show ?thesis using two_bus_run b base by simp
qed

subsection \<open>Indexing the dataset\<close>

lemma py_getitem_cases:
  "(- int (length xs) \<le> i \<and> i < int (length xs) \<longrightarrow> (\<exists>x\<in>set xs. py_getitem xs i = Inr x)) \<and>
   (i < - int (length xs) \<or> int (length xs) \<le> i \<longrightarrow> py_getitem xs i = Inl IndexError)"
  by (auto simp add: py_getitem_def)

lemma converged_record_keys:
  assumes "converged_record solver self r base v_nominal theta_nominal it k s"
  shows "map fst s = sample_keys" and "dict_getitem s ''input'' = Inl KeyError"
proof -
  from assms obtain S Ybus vs thetas V_mag V_ang resd where
    "s = sample_record S Ybus vs thetas it V_mag V_ang resd"
    by (auto simp add: converged_record_def Let_def split: sum.splits)
  then show "map fst s = sample_keys" and "dict_getitem s ''input'' = Inl KeyError"
    by (simp_all add: sample_record_def sample_keys_def dict_getitem_def)
qed

lemma PowerFlowDataset_init_samples:
  assumes "PowerFlowDataset_init solver r base_network n mi tol vp tp st = (self, st', e)"
    and "s \<in> set (samples st')"
  shows "map fst s = sample_keys" and "dict_getitem s ''input'' = Inl KeyError"
proof -
  define s1 where "s1 = st\<lparr>heap := heap st @ [heap st ! base_network], samples := []\<rparr>"
  have self: "self = \<lparr>base_net = length (heap st), num_samples = n, max_iteration_attr = mi,
       tolerance_mva_attr = tol, v_perturb = vp, theta_perturb = tp\<rparr>"
    and gen: "generate_samples solver self r s1 = (st', e)"
    using assms(1) by (auto simp add: PowerFlowDataset_init_eq s1_def)
  have b: "base_net self < length (heap s1)" by (simp add: self s1_def)
  from generate_samples_run [OF gen b] obtain new where
    "samples st' = samples s1 @ new"
    "\<forall>s\<in>set new. \<exists>k\<in>set (py_range 0 (num_samples self)).
         converged_record solver self r (heap s1 ! base_net self)
           (res_vm_pu (fst (base_solve solver (heap s1 ! base_net self))))
           (res_va_degree (fst (base_solve solver (heap s1 ! base_net self))))
           (ppc_iterations (fst (base_solve solver (heap s1 ! base_net self)))) k s"
    by blast
  with assms(2) obtain k where "converged_record solver self r (heap s1 ! base_net self)
           (res_vm_pu (fst (base_solve solver (heap s1 ! base_net self))))
           (res_va_degree (fst (base_solve solver (heap s1 ! base_net self))))
           (ppc_iterations (fst (base_solve solver (heap s1 ! base_net self)))) k s"
    by (auto simp add: s1_def)
  then show "map fst s = sample_keys" and "dict_getitem s ''input'' = Inl KeyError"
    by (rule converged_record_keys)+
qed

text \<open>
  Claim C8: after construction every sample record has exactly the eleven keys of
  \<open>sample_keys\<close>, which do not include \<open>input\<close> or \<open>output\<close>. So \<open>__getitem__\<close> raises
  \<open>KeyError\<close> at every index within the dataset (counted from either end) and \<open>IndexError\<close>
  at every other index: it never returns.
\<close>

theorem dataset_getitem_raises:
  assumes "PowerFlowDataset_init solver r base_network n mi tol vp tp st = (self, st', e)"
  shows "(\<forall>s\<in>set (samples st'). map fst s = sample_keys) \<and>
    ''input'' \<notin> set sample_keys \<and> ''output'' \<notin> set sample_keys \<and>
    (- int (dataset_len st') \<le> idx \<and> idx < int (dataset_len st') \<longrightarrow>
       dataset_getitem FloatTensor st' idx = Inl KeyError) \<and>
    (idx < - int (dataset_len st') \<or> int (dataset_len st') \<le> idx \<longrightarrow>
       dataset_getitem FloatTensor st' idx = Inl IndexError)"
proof -
  have keys: "\<forall>s\<in>set (samples st'). map fst s = sample_keys"
    using PowerFlowDataset_init_samples(1) [OF assms] by blast
  have nk: "''input'' \<notin> set sample_keys \<and> ''output'' \<notin> set sample_keys"
    by (simp add: sample_keys_def)
  have inr: "dataset_getitem FloatTensor st' idx = Inl KeyError"
    if "- int (dataset_len st') \<le> idx \<and> idx < int (dataset_len st')"
  proof -
    from that py_getitem_cases [of "samples st'" idx]
    obtain s where s: "s \<in> set (samples st')" "py_getitem (samples st') idx = Inr s"
      by (auto simp add: dataset_len_def)
    from PowerFlowDataset_init_samples(2) [OF assms s(1)] s(2) show ?thesis
      by (simp add: dataset_getitem_def)
  qed
  have out: "dataset_getitem FloatTensor st' idx = Inl IndexError"
    if "idx < - int (dataset_len st') \<or> int (dataset_len st') \<le> idx"
    using that py_getitem_cases [of "samples st'" idx]
    by (auto simp add: dataset_len_def dataset_getitem_def)
  from keys nk inr out show ?thesis by blast
qed

theorem dataset_getitem_raises_witness:
  "PowerFlowDataset_init two_bus_solver two_bus_rng 0 2 50 (1 / 100000) (3 / 20) 30 two_bus_initial
     = (two_bus_dataset, two_bus_final, None) \<and>
   dataset_len two_bus_final = 1 \<and>
   dataset_getitem (\<lambda>v. Inr v) two_bus_final 0 = Inl KeyError \<and>
   dataset_getitem (\<lambda>v. Inr v) two_bus_final (- 1) = Inl KeyError \<and>
   dataset_getitem (\<lambda>v. Inr v) two_bus_final 1 = Inl IndexError"
proof -
  have len: "dataset_len two_bus_final = 1"
    by (simp add: dataset_len_def two_bus_final_def)
  from dataset_getitem_raises [OF two_bus_init, of 0 "\<lambda>v. Inr v"]
    dataset_getitem_raises [OF two_bus_init, of "- 1" "\<lambda>v. Inr v"]
    dataset_getitem_raises [OF two_bus_init, of 1 "\<lambda>v. Inr v"]
  show ?thesis using two_bus_init by (simp add: len)
qed

end
